theory Spec2Isabelle
  imports Complex_Main
begin

section \<open>JavaScript values read from the platform\<close>

text \<open>
  The hooks read untyped platform objects (\<^verbatim>\<open>navigator.connection\<close>, the battery manager;
  both behind \<^verbatim>\<open>@ts-ignore\<close> or typed \<^verbatim>\<open>any\<close>), so a field can hold any JavaScript
  value. Numbers are passed through without arithmetic; only their truthiness and their
  \<^verbatim>\<open>typeof\<close> are inspected.
\<close>

datatype jsnum = NaN | PosInfinity | NegInfinity | Finite rat

datatype 'o jsval =
    JUndefined
  | JNull
  | JBool bool
  | JNumber jsnum
  | JString string
  | JFunction
  | JObject 'o

type_synonym prim = "unit jsval"

fun truthy :: "'o jsval \<Rightarrow> bool" where
  "truthy JUndefined = False"
| "truthy JNull = False"
| "truthy (JBool b) = b"
| "truthy (JNumber n) = (n \<noteq> NaN \<and> n \<noteq> Finite 0)"
| "truthy (JString s) = (s \<noteq> [])"
| "truthy JFunction = True"
| "truthy (JObject _) = True"

fun typeof :: "'o jsval \<Rightarrow> string" where
  "typeof JUndefined = ''undefined''"
| "typeof JNull = ''object''"
| "typeof (JBool _) = ''boolean''"
| "typeof (JNumber _) = ''number''"
| "typeof (JString _) = ''string''"
| "typeof JFunction = ''function''"
| "typeof (JObject _) = ''object''"

text \<open>\<^verbatim>\<open>a || b\<close> on values.\<close>

definition js_or :: "'o jsval \<Rightarrow> 'o jsval \<Rightarrow> 'o jsval" where
  "js_or a b = (if truthy a then a else b)"

datatype js_error = TypeError | Error string | PlatformError

section \<open>Event targets\<close>

text \<open>
  A listener is an event name with the identity of the function that was registered.
  The closures a hook creates per activation are \<open>HandleChange\<close> (useNetworkSpeed) and the
  four battery handlers; \<open>Foreign n\<close> stands for a function registered by other code on
  the same platform object.
\<close>

datatype handler =
    HandleChange
  | HandleLevelChange
  | HandleChargingChange
  | HandleChargingTimeChange
  | HandleDischargingTimeChange
  | Foreign nat

type_synonym listener = "string \<times> handler"

definition addEventListener :: "string \<Rightarrow> handler \<Rightarrow> listener list \<Rightarrow> listener list" where
  "addEventListener ev h ls = (if (ev, h) \<in> set ls then ls else ls @ [(ev, h)])"

definition removeEventListener :: "string \<Rightarrow> handler \<Rightarrow> listener list \<Rightarrow> listener list" where
  "removeEventListener ev h ls = filter (\<lambda>l. l \<noteq> (ev, h)) ls"

text \<open>
  A function value passed as the \<^verbatim>\<open>onChange\<close> option: its identity, and what a call of it
  does (\<open>None\<close>: it returns; \<open>Some e\<close>: it throws \<open>e\<close>).
\<close>

datatype callback = Callback (cb_id: nat) (cb_throws: "js_error option")


section \<open>useNetworkSpeed\<close>

record NetworkSpeedInfo =
  effectiveType :: prim
  downlink :: prim
  rtt :: prim
  saveData :: prim

text \<open>
  The connection-information object as the platform presents it at one moment. The hook
  keeps a reference to the object and reads its fields again at every notification, so
  the fields current at that moment are an input of the notification.
  \<open>conn_isEventTarget\<close> says whether the object has a callable
  \<^verbatim>\<open>addEventListener\<close>/\<^verbatim>\<open>removeEventListener\<close>.
\<close>

record connection =
  conn_effectiveType :: prim
  conn_downlink :: prim
  conn_rtt :: prim
  conn_saveData :: prim
  conn_isEventTarget :: bool

text \<open>
  The execution context: \<open>hasWindow\<close> is \<^verbatim>\<open>typeof window !== 'undefined'\<close>,
  \<open>connection_in_navigator\<close> is \<^verbatim>\<open>'connection' in navigator\<close>; reading a navigator
  property either yields a value or throws. \<open>getBattery_call\<close> is what the call
  \<^verbatim>\<open>navigator.getBattery()\<close> does at once: \<open>Some e\<close> when it throws \<open>e\<close> (a property that is
  no function gives a TypeError), \<open>None\<close> when it returns something to await.
\<close>

record environment =
  hasWindow :: bool
  connection_in_navigator :: bool
  nav_connection :: "js_error + connection jsval"
  nav_mozConnection :: "js_error + connection jsval"
  nav_webkitConnection :: "js_error + connection jsval"
  getBattery_in_navigator :: bool
  getBattery_call :: "js_error option"

definition unknownNetworkInfo :: NetworkSpeedInfo where
  "unknownNetworkInfo =
     \<lparr>effectiveType = JString ''unknown'', downlink = JNumber (Finite 0),
      rtt = JNumber (Finite 0), saveData = JBool False\<rparr>"

text \<open>\<^verbatim>\<open>navigator.connection || navigator.mozConnection || navigator.webkitConnection\<close>\<close>

definition read_conn :: "environment \<Rightarrow> js_error + connection jsval" where
  "read_conn env =
     (case nav_connection env of
        Inl e \<Rightarrow> Inl e
      | Inr a \<Rightarrow>
          if truthy a then Inr a
          else (case nav_mozConnection env of
                  Inl e \<Rightarrow> Inl e
                | Inr b \<Rightarrow> if truthy b then Inr b else nav_webkitConnection env))"

text \<open>\<^verbatim>\<open>conn?.f\<close>: undefined on null and undefined, and on a primitive, which has none of
  the properties the hooks read. (A plain \<^verbatim>\<open>v.f\<close> differs only on null and undefined, where
  it throws; the hooks write it only where \<open>v\<close> is known to be truthy.)\<close>

definition optchain :: "('o \<Rightarrow> prim) \<Rightarrow> 'o jsval \<Rightarrow> prim" where
  "optchain f v = (case v of JObject c \<Rightarrow> f c | _ \<Rightarrow> JUndefined)"

text \<open>The lazy initialiser of \<^verbatim>\<open>useState\<close> (part_002, lines 13-42): the initial snapshot and
  what it logs with \<^verbatim>\<open>console.warn\<close>.\<close>

definition initialNetworkInfo :: "environment \<Rightarrow> NetworkSpeedInfo \<times> string list" where
  "initialNetworkInfo env =
     (if \<not> hasWindow env \<or> \<not> connection_in_navigator env then (unknownNetworkInfo, [])
      else (case read_conn env of
              Inr conn \<Rightarrow>
                (\<lparr>effectiveType = js_or (optchain conn_effectiveType conn) (JString ''unknown''),
                  downlink = js_or (optchain conn_downlink conn) (JNumber (Finite 0)),
                  rtt = js_or (optchain conn_rtt conn) (JNumber (Finite 0)),
                  saveData = js_or (optchain conn_saveData conn) (JBool False)\<rparr>, [])
            | Inl e \<Rightarrow> (unknownNetworkInfo, [''Error reading network information:''])))"

text \<open>
  One mounted instance of the hook together with the part of the world it touches:
  the component state, the \<^verbatim>\<open>onChangeRef\<close>, the listener list of the connection object,
  and four traces (every \<^verbatim>\<open>setNetworkInfo\<close> call, every \<^verbatim>\<open>onChange\<close> invocation with the
  function invoked and its argument, every \<^verbatim>\<open>console.warn\<close>, every exception that left the
  handler uncaught). \<open>ns_cleanup\<close> records whether the effect returned a cleanup function,
  \<open>ns_unmounted\<close> whether React has run teardown.
\<close>

record ns_state =
  networkInfo :: NetworkSpeedInfo
  onChangeRef :: "callback option"
  conn_listeners :: "listener list"
  setNetworkInfo_calls :: "NetworkSpeedInfo list"
  onChange_calls :: "(callback \<times> NetworkSpeedInfo) list"
  ns_warnings :: "string list"
  ns_uncaught :: "js_error list"
  ns_cleanup :: bool
  ns_unmounted :: bool

text \<open>part_002, lines 63-73. The handler is registered only on an object, so \<open>conn\<close> is
  one here. The call of \<^verbatim>\<open>onChange\<close> is the handler's last statement and is in no \<^verbatim>\<open>try\<close>: an
  exception it throws leaves the handler.\<close>

definition handleChange :: "connection \<Rightarrow> ns_state \<Rightarrow> ns_state" where
  "handleChange conn st =
     (let newInfo =
            \<lparr>effectiveType = js_or (conn_effectiveType conn) (JString ''unknown''),
             downlink = js_or (conn_downlink conn) (JNumber (Finite 0)),
             rtt = js_or (conn_rtt conn) (JNumber (Finite 0)),
             saveData = js_or (conn_saveData conn) (JBool False)\<rparr>;
          st1 = st\<lparr>networkInfo := newInfo,
                   setNetworkInfo_calls := setNetworkInfo_calls st @ [newInfo]\<rparr>
      in (case onChangeRef st1 of
            None \<Rightarrow> st1
          | Some cb \<Rightarrow>
              st1\<lparr>onChange_calls := onChange_calls st1 @ [(cb, newInfo)],
                  ns_uncaught := ns_uncaught st1 @ (case cb_throws cb of None \<Rightarrow> [] | Some e \<Rightarrow> [e])\<rparr>))"

text \<open>The second effect (part_002, lines 50-84).\<close>

definition ns_warn :: "ns_state \<Rightarrow> ns_state" where
  "ns_warn st = st\<lparr>ns_warnings := ns_warnings st @ [''Error setting up network speed monitoring:'']\<rparr>"

definition ns_effect :: "environment \<Rightarrow> ns_state \<Rightarrow> ns_state" where
  "ns_effect env st =
     (if \<not> hasWindow env \<or> \<not> connection_in_navigator env then st
      else (case read_conn env of
              Inl e \<Rightarrow> ns_warn st
            | Inr conn \<Rightarrow>
                if \<not> truthy conn then st
                else (case conn of
                        JObject c \<Rightarrow>
                          if conn_isEventTarget c
                          then st\<lparr>conn_listeners :=
                                    addEventListener ''change'' HandleChange (conn_listeners st),
                                  ns_cleanup := True\<rparr>
                          else ns_warn st
                      | _ \<Rightarrow> ns_warn st)))"

text \<open>The cleanup function the effect returns (part_002, lines 77-79).\<close>

definition ns_cleanup_fn :: "ns_state \<Rightarrow> ns_state" where
  "ns_cleanup_fn st =
     st\<lparr>conn_listeners := removeEventListener ''change'' HandleChange (conn_listeners st)\<rparr>"

text \<open>First render and effects of \<^verbatim>\<open>useNetworkSpeed({onChange})\<close>, on a connection object
  whose listener list is \<open>ls\<close>.\<close>

definition useNetworkSpeed :: "environment \<Rightarrow> callback option \<Rightarrow> listener list \<Rightarrow> ns_state" where
  "useNetworkSpeed env onChange ls =
     ns_effect env
       \<lparr>networkInfo = fst (initialNetworkInfo env), onChangeRef = onChange,
        conn_listeners = ls, setNetworkInfo_calls = [], onChange_calls = [],
        ns_warnings = snd (initialNetworkInfo env), ns_uncaught = [], ns_cleanup = False,
        ns_unmounted = False\<rparr>"

text \<open>
  The platform dispatches event \<open>ev\<close> on the connection object, whose fields are now
  \<open>conn\<close>: every listener registered under that name runs, in registration order. Of the
  handlers only \<open>HandleChange\<close> belongs to this hook instance.
\<close>

definition ns_run_handler :: "handler \<Rightarrow> connection \<Rightarrow> ns_state \<Rightarrow> ns_state" where
  "ns_run_handler h conn st = (case h of HandleChange \<Rightarrow> handleChange conn st | _ \<Rightarrow> st)"

definition ns_dispatch :: "string \<Rightarrow> connection \<Rightarrow> ns_state \<Rightarrow> ns_state" where
  "ns_dispatch ev conn st =
     fold (\<lambda>l s. if fst l = ev then ns_run_handler (snd l) conn s else s) (conn_listeners st) st"

text \<open>
  What can happen to a mounted instance: a re-render with a new \<^verbatim>\<open>onChange\<close> option (the
  first effect stores it in the ref), a platform event, teardown.
\<close>

datatype ns_event = Render "callback option" | Notify string connection | Unmount

fun ns_step :: "ns_event \<Rightarrow> ns_state \<Rightarrow> ns_state" where
  "ns_step (Render cb) st = (if ns_unmounted st then st else st\<lparr>onChangeRef := cb\<rparr>)"
| "ns_step (Notify ev conn) st = ns_dispatch ev conn st"
| "ns_step Unmount st =
     (if ns_unmounted st then st
      else (if ns_cleanup st then ns_cleanup_fn st else st)\<lparr>ns_unmounted := True\<rparr>)"

definition ns_run :: "ns_event list \<Rightarrow> ns_state \<Rightarrow> ns_state" where
  "ns_run evs st = fold ns_step evs st"

text \<open>
  A hook creates its handlers when its effect runs, so the listener list it finds on the
  platform object at mount holds functions of other code only.
\<close>

definition is_foreign :: "listener \<Rightarrow> bool" where
  "is_foreign l = (case snd l of Foreign _ \<Rightarrow> True | _ \<Rightarrow> False)"


section \<open>useBattery\<close>

record BatteryStatus =
  level :: prim
  charging :: prim
  chargingTime :: prim
  dischargingTime :: prim
  supported :: bool

text \<open>
  The battery manager object as the platform presents it at one moment. The hook types it
  \<^verbatim>\<open>any\<close>, so reading a property either yields a value or throws (an accessor property can
  run code). \<open>bat_isEventTarget\<close> says whether the object has a callable
  \<^verbatim>\<open>addEventListener\<close>/\<^verbatim>\<open>removeEventListener\<close>.
\<close>

record battery =
  bat_level :: "js_error + prim"
  bat_charging :: "js_error + prim"
  bat_chargingTime :: "js_error + prim"
  bat_dischargingTime :: "js_error + prim"
  bat_isEventTarget :: bool

text \<open>\<^verbatim>\<open>b.f\<close> for a truthy \<open>b\<close>: the property of an object, undefined on a primitive.\<close>

definition read_prop :: "(battery \<Rightarrow> js_error + prim) \<Rightarrow> battery jsval \<Rightarrow> js_error + prim" where
  "read_prop f b = (case b of JObject bm \<Rightarrow> f bm | _ \<Rightarrow> Inr JUndefined)"

definition unsupportedBatteryStatus :: BatteryStatus where
  "unsupportedBatteryStatus =
     \<lparr>level = JNumber (Finite 1), charging = JBool False, chargingTime = JNumber PosInfinity,
      dischargingTime = JNumber PosInfinity, supported = False\<rparr>"

text \<open>
  The promise \<^verbatim>\<open>initBattery()\<close> returns: not created (the effect returned early), pending
  at the \<^verbatim>\<open>await\<close>, or settled: \<open>Inl e\<close> rejected with \<open>e\<close>, \<open>Inr True\<close> fulfilled with the
  function that removes the four listeners, \<open>Inr False\<close> fulfilled with undefined.
\<close>

datatype init_promise = NotCalled | Awaiting | Settled "js_error + bool"

text \<open>
  One mounted instance of the hook and the part of the world it touches. \<open>mounted\<close> is the
  effect's local flag (line 34); \<open>then_pending\<close> says that teardown has registered
  \<^verbatim>\<open>cleanup.then(...)\<close> (line 105) and its callback has not run yet; \<open>battery_listeners\<close>
  is the listener list of the battery manager object; the four traces are as for
  useNetworkSpeed.
\<close>

record bt_state =
  batteryStatus :: BatteryStatus
  bt_onChangeRef :: "callback option"
  batteryRef :: "battery jsval"
  mounted :: bool
  cleanup_promise :: init_promise
  then_pending :: bool
  battery_listeners :: "listener list"
  setBatteryStatus_calls :: "BatteryStatus list"
  bt_onChange_calls :: "(callback \<times> BatteryStatus) list"
  bt_warnings :: "string list"
  bt_uncaught :: "js_error list"
  bt_cleanup :: bool
  bt_unmounted :: bool

text \<open>
  useBattery.ts, lines 36-49: the state it leaves and the exception it throws, if any.
  \<open>newBatteryStatus\<close> is the object literal of lines 39-45 on the four values read,
  \<open>publishBatteryStatus\<close> is lines 47-48. The four properties are read in the order of
  the literal (each for its type and again for its value; both reads of a property at one
  moment have the same outcome); a read that throws ends the function before anything is
  published. The call of \<^verbatim>\<open>onChange\<close> comes after \<^verbatim>\<open>setBatteryStatus\<close>, so an exception of
  the callback leaves the new status published.
\<close>

definition newBatteryStatus :: "prim \<Rightarrow> prim \<Rightarrow> prim \<Rightarrow> prim \<Rightarrow> BatteryStatus" where
  "newBatteryStatus lv ch ct dt =
     \<lparr>level = (if typeof lv = ''number'' then lv else JNumber (Finite 1)),
      charging = (if typeof ch = ''boolean'' then ch else JBool False),
      chargingTime = (if typeof ct = ''number'' then ct else JNumber PosInfinity),
      dischargingTime = (if typeof dt = ''number'' then dt else JNumber PosInfinity),
      supported = True\<rparr>"

definition publishBatteryStatus :: "BatteryStatus \<Rightarrow> bt_state \<Rightarrow> bt_state \<times> js_error option" where
  "publishBatteryStatus newStatus st =
     (let st1 = st\<lparr>batteryStatus := newStatus,
                   setBatteryStatus_calls := setBatteryStatus_calls st @ [newStatus]\<rparr>
      in (case bt_onChangeRef st1 of
            None \<Rightarrow> (st1, None)
          | Some cb \<Rightarrow>
              (st1\<lparr>bt_onChange_calls := bt_onChange_calls st1 @ [(cb, newStatus)]\<rparr>,
               cb_throws cb)))"

definition updateBatteryStatus :: "battery jsval \<Rightarrow> bt_state \<Rightarrow> bt_state \<times> js_error option" where
  "updateBatteryStatus b st =
     (if \<not> mounted st \<or> \<not> truthy b then (st, None)
      else
        (case read_prop bat_level b of
           Inl e \<Rightarrow> (st, Some e)
         | Inr lv \<Rightarrow>
        (case read_prop bat_charging b of
           Inl e \<Rightarrow> (st, Some e)
         | Inr ch \<Rightarrow>
        (case read_prop bat_chargingTime b of
           Inl e \<Rightarrow> (st, Some e)
         | Inr ct \<Rightarrow>
        (case read_prop bat_dischargingTime b of
           Inl e \<Rightarrow> (st, Some e)
         | Inr dt \<Rightarrow> publishBatteryStatus (newBatteryStatus lv ch ct dt) st)))))"

definition add_battery_listeners :: "listener list \<Rightarrow> listener list" where
  "add_battery_listeners ls =
     addEventListener ''dischargingtimechange'' HandleDischargingTimeChange
       (addEventListener ''chargingtimechange'' HandleChargingTimeChange
         (addEventListener ''chargingchange'' HandleChargingChange
           (addEventListener ''levelchange'' HandleLevelChange ls)))"

definition remove_battery_listeners :: "listener list \<Rightarrow> listener list" where
  "remove_battery_listeners ls =
     removeEventListener ''dischargingtimechange'' HandleDischargingTimeChange
       (removeEventListener ''chargingtimechange'' HandleChargingTimeChange
         (removeEventListener ''chargingchange'' HandleChargingChange
           (removeEventListener ''levelchange'' HandleLevelChange ls)))"

text \<open>
  The body of the \<^verbatim>\<open>try\<close> after the \<^verbatim>\<open>await\<close> has produced \<open>b\<close> (lines 56-85): the state it
  leaves, and either the exception it throws or the value it returns. An exception of
  the initial \<open>updateBatteryStatus\<close> (line 66) ends the body before any listener is
  registered. A value that is no event target has no callable \<^verbatim>\<open>addEventListener\<close>, so the
  first registration throws a TypeError, after the initial status has been published.
\<close>

definition initBattery_try :: "battery jsval \<Rightarrow> bt_state \<Rightarrow> bt_state \<times> (js_error + bool)" where
  "initBattery_try b st =
     (if \<not> truthy b \<or> typeof b \<noteq> ''object'' then (st, Inl (Error ''Invalid battery object''))
      else
        (let st1 = st\<lparr>batteryRef := b\<rparr> in
         if \<not> mounted st1 then (st1, Inr False)
         else
           (case updateBatteryStatus b st1 of
              (st2, Some e) \<Rightarrow> (st2, Inl e)
            | (st2, None) \<Rightarrow>
                (case b of
                   JObject bm \<Rightarrow>
                     if bat_isEventTarget bm
                     then (st2\<lparr>battery_listeners := add_battery_listeners (battery_listeners st2)\<rparr>,
                           Inr True)
                     else (st2, Inl TypeError)
                 | _ \<Rightarrow> (st2, Inl TypeError)))))"

text \<open>The \<^verbatim>\<open>catch\<close> block (lines 86-98).\<close>

definition initBattery_catch :: "bt_state \<Rightarrow> bt_state \<times> (js_error + bool)" where
  "initBattery_catch st =
     (let st1 = st\<lparr>bt_warnings := bt_warnings st @ [''Error accessing battery status:'']\<rparr> in
      (if mounted st1
       then st1\<lparr>batteryStatus := unsupportedBatteryStatus,
                setBatteryStatus_calls := setBatteryStatus_calls st1 @ [unsupportedBatteryStatus]\<rparr>
       else st1,
       Inr False))"

text \<open>How the awaited value settles: the platform promise rejects, or it fulfils with a
  value (an awaited value that is no promise counts as fulfilled with itself).\<close>

datatype settlement = Rejected js_error | Fulfilled "battery jsval"

definition initBattery_resume :: "settlement \<Rightarrow> bt_state \<Rightarrow> bt_state \<times> (js_error + bool)" where
  "initBattery_resume s st =
     (case s of
        Rejected e \<Rightarrow> initBattery_catch st
      | Fulfilled b \<Rightarrow>
          (case initBattery_try b st of
             (st', Inl e) \<Rightarrow> initBattery_catch st'
           | (st', Inr r) \<Rightarrow> (st', Inr r)))"

text \<open>
  The callback of \<^verbatim>\<open>cleanup.then(cleanupFn => cleanupFn?.())\<close> runs as a microtask once
  teardown has registered it and the promise is fulfilled.
\<close>

definition run_microtasks :: "bt_state \<Rightarrow> bt_state" where
  "run_microtasks st =
     (if then_pending st then
        (case cleanup_promise st of
           Settled (Inr True) \<Rightarrow>
             st\<lparr>battery_listeners := remove_battery_listeners (battery_listeners st),
                then_pending := False\<rparr>
         | Settled (Inr False) \<Rightarrow> st\<lparr>then_pending := False\<rparr>
         | Settled (Inl e) \<Rightarrow> st\<lparr>then_pending := False\<rparr>
         | _ \<Rightarrow> st)
      else st)"

definition settle :: "settlement \<Rightarrow> bt_state \<Rightarrow> bt_state" where
  "settle s st =
     (case initBattery_resume s st of (st', r) \<Rightarrow> run_microtasks (st'\<lparr>cleanup_promise := Settled r\<rparr>))"

text \<open>The second effect (lines 28-107) up to the first suspension of \<^verbatim>\<open>initBattery\<close>.\<close>

definition bt_effect :: "environment \<Rightarrow> bt_state \<Rightarrow> bt_state" where
  "bt_effect env st =
     (if \<not> hasWindow env \<or> \<not> getBattery_in_navigator env then st
      else
        (let st1 = st\<lparr>mounted := True, bt_cleanup := True\<rparr> in
         (case getBattery_call env of
            Some e \<Rightarrow> (case initBattery_catch st1 of (st2, r) \<Rightarrow> st2\<lparr>cleanup_promise := Settled r\<rparr>)
          | None \<Rightarrow> st1\<lparr>cleanup_promise := Awaiting\<rparr>)))"

text \<open>The function the effect returns (lines 103-106).\<close>

definition bt_cleanup_fn :: "bt_state \<Rightarrow> bt_state" where
  "bt_cleanup_fn st = st\<lparr>mounted := False, then_pending := True\<rparr>"

definition useBattery :: "environment \<Rightarrow> callback option \<Rightarrow> listener list \<Rightarrow> bt_state" where
  "useBattery env onChange ls =
     bt_effect env
       \<lparr>batteryStatus = unsupportedBatteryStatus, bt_onChangeRef = onChange, batteryRef = JNull,
        mounted = False, cleanup_promise = NotCalled, then_pending = False,
        battery_listeners = ls, setBatteryStatus_calls = [], bt_onChange_calls = [],
        bt_warnings = [], bt_uncaught = [], bt_cleanup = False, bt_unmounted = False\<rparr>"

text \<open>
  Each of the four handlers is \<^verbatim>\<open>() => updateBatteryStatus(battery)\<close> (lines 69-72). The
  platform calls them; they are outside the \<^verbatim>\<open>try\<close> of \<^verbatim>\<open>initBattery\<close>, so an exception of
  \<open>updateBatteryStatus\<close> leaves the handler: nothing in the hook catches or logs it, and
  the platform goes on with the next listener.
\<close>

definition handler_call :: "battery \<Rightarrow> bt_state \<Rightarrow> bt_state" where
  "handler_call bm st =
     (case updateBatteryStatus (JObject bm) st of
        (st', None) \<Rightarrow> st'
      | (st', Some e) \<Rightarrow> st'\<lparr>bt_uncaught := bt_uncaught st' @ [e]\<rparr>)"

definition bt_run_handler :: "handler \<Rightarrow> battery \<Rightarrow> bt_state \<Rightarrow> bt_state" where
  "bt_run_handler h bm st =
     (case h of
        HandleLevelChange \<Rightarrow> handler_call bm st
      | HandleChargingChange \<Rightarrow> handler_call bm st
      | HandleChargingTimeChange \<Rightarrow> handler_call bm st
      | HandleDischargingTimeChange \<Rightarrow> handler_call bm st
      | _ \<Rightarrow> st)"

definition bt_dispatch :: "string \<Rightarrow> battery \<Rightarrow> bt_state \<Rightarrow> bt_state" where
  "bt_dispatch ev bm st =
     fold (\<lambda>l s. if fst l = ev then bt_run_handler (snd l) bm s else s) (battery_listeners st) st"

datatype bt_event =
    BatRender "callback option"
  | BatSettle settlement
  | BatNotify string battery
  | BatUnmount

fun bt_step :: "bt_event \<Rightarrow> bt_state \<Rightarrow> bt_state" where
  "bt_step (BatRender cb) st = (if bt_unmounted st then st else st\<lparr>bt_onChangeRef := cb\<rparr>)"
| "bt_step (BatSettle s) st = (if cleanup_promise st = Awaiting then settle s st else st)"
| "bt_step (BatNotify ev bm) st = bt_dispatch ev bm st"
| "bt_step BatUnmount st =
     (if bt_unmounted st then st
      else run_microtasks ((if bt_cleanup st then bt_cleanup_fn st else st)\<lparr>bt_unmounted := True\<rparr>))"

definition bt_run :: "bt_event list \<Rightarrow> bt_state \<Rightarrow> bt_state" where
  "bt_run evs st = fold bt_step evs st"

section \<open>The idle detector\<close>

text \<open>
  Modelled from the spec: the source of \<^verbatim>\<open>useIdle\<close> is not among the files; only its
  documentation is. The definitions of this section follow section 4.1 of the
  specification. Time is counted in milliseconds since activation.
\<close>

record idle_config =
  timeoutMs :: nat
  trackedEventNames :: "string list"
  initialState :: bool

text \<open>
  The detector: the idle flag, the clock, the single pending deadline timer (the time at
  which it fires), the event names a listener is registered for, and three traces: how
  often each callback has been invoked and every value the flag has changed to.
\<close>

record idle_state =
  isIdle :: bool
  now :: nat
  deadline :: "nat option"
  idle_listeners :: "string list"
  onIdle_calls :: nat
  onActive_calls :: nat
  flag_changes :: "bool list"

text \<open>
  Modelled from the spec: activation registers a listener for each tracked event name
  and starts the deadline timer; the detector counts as not idle until the first deadline
  elapses, whatever the initial-state option says. In a non-interactive context it stays
  in its configured default state, with no listener and no timer.
\<close>

definition idle_activate :: "bool \<Rightarrow> idle_config \<Rightarrow> idle_state" where
  "idle_activate interactive cfg =
     (if interactive
      then \<lparr>isIdle = False, now = 0, deadline = Some (timeoutMs cfg),
            idle_listeners = trackedEventNames cfg, onIdle_calls = 0, onActive_calls = 0,
            flag_changes = []\<rparr>
      else \<lparr>isIdle = initialState cfg, now = 0, deadline = None,
            idle_listeners = [], onIdle_calls = 0, onActive_calls = 0, flag_changes = []\<rparr>)"

text \<open>
  Modelled from the spec: the deadline firing transitions to idle and invokes the idle
  callback once per transition.
\<close>

definition deadline_fires :: "idle_state \<Rightarrow> idle_state" where
  "deadline_fires st =
     (if isIdle st then st\<lparr>deadline := None\<rparr>
      else st\<lparr>deadline := None, isIdle := True, onIdle_calls := onIdle_calls st + 1,
              flag_changes := flag_changes st @ [True]\<rparr>)"

text \<open>
  Modelled from the spec: each tracked event cancels and reschedules the deadline timer
  and, if the state is idle, transitions to active and invokes the active callback once
  per transition.
\<close>

definition tracked_event :: "idle_config \<Rightarrow> idle_state \<Rightarrow> idle_state" where
  "tracked_event cfg st =
     (let st1 = st\<lparr>deadline := Some (now st + timeoutMs cfg)\<rparr> in
      if isIdle st1
      then st1\<lparr>isIdle := False, onActive_calls := onActive_calls st1 + 1,
               flag_changes := flag_changes st1 @ [False]\<rparr>
      else st1)"

text \<open>
  Modelled from the spec: what happens to an activated detector. Time passes, and the
  pending timer fires once its deadline is reached; an event with some name fires on the
  input surface, and counts when a listener is registered for it; teardown cancels the
  pending timer and removes every listener.
\<close>

datatype idle_event = Elapse nat | Dom string | Teardown

fun idle_step :: "idle_config \<Rightarrow> idle_event \<Rightarrow> idle_state \<Rightarrow> idle_state" where
  "idle_step cfg (Elapse d) st =
     (let st1 = st\<lparr>now := now st + d\<rparr> in
      case deadline st1 of
        None \<Rightarrow> st1
      | Some t \<Rightarrow> if t \<le> now st1 then deadline_fires st1 else st1)"
| "idle_step cfg (Dom name) st =
     (if name \<in> set (idle_listeners st) then tracked_event cfg st else st)"
| "idle_step cfg Teardown st = st\<lparr>deadline := None, idle_listeners := []\<rparr>"

definition idle_run :: "idle_config \<Rightarrow> idle_event list \<Rightarrow> idle_state \<Rightarrow> idle_state" where
  "idle_run cfg evs st = fold (idle_step cfg) evs st"

text \<open>Modelled from the spec: a stretch of the run in which no tracked event fires (and
  the detector is not torn down), and the time that passes in it.\<close>

fun quiet :: "idle_config \<Rightarrow> idle_event \<Rightarrow> bool" where
  "quiet cfg (Elapse d) = True"
| "quiet cfg (Dom name) = (name \<notin> set (trackedEventNames cfg))"
| "quiet cfg Teardown = False"

fun elapsed :: "idle_event list \<Rightarrow> nat" where
  "elapsed [] = 0"
| "elapsed (Elapse d # evs) = d + elapsed evs"
| "elapsed (_ # evs) = elapsed evs"

section \<open>The geolocation accessor\<close>

text \<open>
  Modelled from the spec: the source of \<^verbatim>\<open>useGeolocation\<close> is not among the files; only
  its documentation is. The definitions of this section follow the state machine of
  section 4.2 of the specification.
\<close>

record GeolocationCoordinates =
  latitude :: rat
  longitude :: rat
  accuracy :: rat
  altitude :: "rat option"
  altitudeAccuracy :: "rat option"
  heading :: "rat option"
  speed :: "rat option"

record GeolocationState =
  loading :: bool
  error :: "(nat \<times> string) option"
  coordinates :: "GeolocationCoordinates option"

record geo_options =
  enabled :: bool
  watch :: bool
  enableHighAccuracy :: bool
  geo_timeout :: nat
  maximumAge :: nat

datatype platform_call =
    GetCurrentPosition geo_options
  | WatchPosition geo_options
  | ClearWatch

text \<open>
  The accessor: the published state, the options of the latest render, whether a request
  is outstanding or a subscription open, and the trace of calls made to the platform.
\<close>

record geo_state =
  geo :: GeolocationState
  geo_opts :: geo_options
  outstanding :: bool
  platform_calls :: "platform_call list"
  geo_mounted :: bool

definition disabledState :: GeolocationState where
  "disabledState = \<lparr>loading = False, error = None, coordinates = None\<rparr>"

text \<open>
  Modelled from the spec: on \<open>enabled\<close> becoming true, one position request (or, with
  \<open>watch\<close>, a continuous subscription) is issued and the state is Loading; in a
  non-interactive context an unsupported error is reported without any request.
\<close>

definition geo_start :: "bool \<Rightarrow> geo_state \<Rightarrow> geo_state" where
  "geo_start interactive st =
     (if \<not> interactive
      then st\<lparr>geo := \<lparr>loading = False, error = Some (0, ''not supported''), coordinates = None\<rparr>\<rparr>
      else st\<lparr>geo := \<lparr>loading = True, error = None, coordinates = None\<rparr>,
              outstanding := True,
              platform_calls := platform_calls st @
                [if watch (geo_opts st) then WatchPosition (geo_opts st)
                 else GetCurrentPosition (geo_opts st)]\<rparr>)"

text \<open>Modelled from the spec: an open subscription is cancelled when \<open>enabled\<close> is set
  false or the component unmounts, and any state collapses back to Disabled when
  \<open>enabled\<close> is set false.\<close>

definition geo_release :: "geo_state \<Rightarrow> geo_state" where
  "geo_release st =
     st\<lparr>outstanding := False,
        platform_calls := (if outstanding st \<and> watch (geo_opts st)
                           then platform_calls st @ [ClearWatch] else platform_calls st)\<rparr>"

text \<open>Modelled from the spec: mounting. While \<open>enabled\<close> is false no platform request
  is issued and the state is Disabled.\<close>

definition useGeolocation :: "bool \<Rightarrow> geo_options \<Rightarrow> geo_state" where
  "useGeolocation interactive opts =
     (let st = \<lparr>geo = disabledState, geo_opts = opts, outstanding = False,
                platform_calls = [], geo_mounted = True\<rparr>
      in if enabled opts then geo_start interactive st else st)"

datatype geo_event =
    SetOptions geo_options
  | PositionSuccess GeolocationCoordinates
  | PositionError nat string
  | Retry
  | GeoUnmount

text \<open>
  Modelled from the spec: a platform callback is taken only while a request is
  outstanding (a late callback after cancellation must not change the state); a one-shot
  request ends with its first callback, a subscription stays open; an explicit retry
  returns to Loading, and is possible only while \<open>enabled\<close> is true.
\<close>

fun geo_step :: "bool \<Rightarrow> geo_event \<Rightarrow> geo_state \<Rightarrow> geo_state" where
  "geo_step interactive (SetOptions opts) st =
     (if \<not> geo_mounted st then st
      else if \<not> enabled opts then (geo_release st)\<lparr>geo := disabledState, geo_opts := opts\<rparr>
      else if enabled (geo_opts st) then st\<lparr>geo_opts := opts\<rparr>
      else geo_start interactive (st\<lparr>geo_opts := opts\<rparr>))"
| "geo_step interactive (PositionSuccess c) st =
     (if outstanding st
      then st\<lparr>geo := \<lparr>loading = False, error = None, coordinates = Some c\<rparr>,
              outstanding := watch (geo_opts st)\<rparr>
      else st)"
| "geo_step interactive (PositionError code msg) st =
     (if outstanding st
      then st\<lparr>geo := \<lparr>loading = False, error = Some (code, msg), coordinates = None\<rparr>,
              outstanding := watch (geo_opts st)\<rparr>
      else st)"
| "geo_step interactive Retry st =
     (if geo_mounted st \<and> enabled (geo_opts st) then geo_start interactive (geo_release st)
      else st)"
| "geo_step interactive GeoUnmount st = (geo_release st)\<lparr>geo_mounted := False\<rparr>"

definition geo_run :: "bool \<Rightarrow> geo_event list \<Rightarrow> geo_state \<Rightarrow> geo_state" where
  "geo_run interactive evs st = fold (geo_step interactive) evs st"

text \<open>Modelled from the spec: an event other than a render that supplies
  \<open>enabled = true\<close>.\<close>

fun keeps_disabled :: "geo_event \<Rightarrow> bool" where
  "keeps_disabled (SetOptions opts) = (\<not> enabled opts)"
| "keeps_disabled _ = True"

section \<open>Concrete inputs\<close>

text \<open>Two \<^verbatim>\<open>onChange\<close> functions that return.\<close>

definition cb7 :: callback where
  "cb7 = Callback 7 None"

definition cb8 :: callback where
  "cb8 = Callback 8 None"

text \<open>A browser that has both platform features, and later readings of the two platform
  objects.\<close>

definition conn_4g :: connection where
  "conn_4g =
     \<lparr>conn_effectiveType = JString ''4g'', conn_downlink = JNumber (Finite 10),
      conn_rtt = JNumber (Finite 50), conn_saveData = JBool False, conn_isEventTarget = True\<rparr>"

definition conn_3g :: connection where
  "conn_3g =
     \<lparr>conn_effectiveType = JString ''3g'', conn_downlink = JNumber (Finite 0),
      conn_rtt = JUndefined, conn_saveData = JBool True, conn_isEventTarget = True\<rparr>"

definition browser_env :: environment where
  "browser_env =
     \<lparr>hasWindow = True, connection_in_navigator = True,
      nav_connection = Inr (JObject conn_4g),
      nav_mozConnection = Inr JUndefined, nav_webkitConnection = Inr JUndefined,
      getBattery_in_navigator = True, getBattery_call = None\<rparr>"

definition server_env :: environment where
  "server_env =
     \<lparr>hasWindow = False, connection_in_navigator = False,
      nav_connection = Inl PlatformError,
      nav_mozConnection = Inl PlatformError, nav_webkitConnection = Inl PlatformError,
      getBattery_in_navigator = False, getBattery_call = Some TypeError\<rparr>"

definition battery_half :: battery where
  "battery_half =
     \<lparr>bat_level = Inr (JNumber (Finite (1 / 2))), bat_charging = Inr (JBool True),
      bat_chargingTime = Inr (JNumber (Finite 1200)), bat_dischargingTime = Inr (JNumber PosInfinity),
      bat_isEventTarget = True\<rparr>"

definition battery_third :: battery where
  "battery_third =
     \<lparr>bat_level = Inr (JNumber (Finite (1 / 3))), bat_charging = Inr (JBool False),
      bat_chargingTime = Inr (JNumber PosInfinity), bat_dischargingTime = Inr (JNumber (Finite 5400)),
      bat_isEventTarget = True\<rparr>"

text \<open>An object that passes the hook's validation but is no event target.\<close>

definition battery_plain_object :: battery where
  "battery_plain_object =
     \<lparr>bat_level = Inr (JNumber (Finite (1 / 2))), bat_charging = Inr (JBool True),
      bat_chargingTime = Inr (JNumber (Finite 1200)), bat_dischargingTime = Inr (JNumber PosInfinity),
      bat_isEventTarget = False\<rparr>"

text \<open>A browser whose \<^verbatim>\<open>navigator.getBattery\<close> is present but throws when called.\<close>

definition broken_env :: environment where
  "broken_env =
     \<lparr>hasWindow = True, connection_in_navigator = True,
      nav_connection = Inr (JObject conn_4g),
      nav_mozConnection = Inr JUndefined, nav_webkitConnection = Inr JUndefined,
      getBattery_in_navigator = True, getBattery_call = Some TypeError\<rparr>"

text \<open>An idle detector with the timeout of the specification's scenario.\<close>

definition idle_5000 :: idle_config where
  "idle_5000 =
     \<lparr>timeoutMs = 5000,
      trackedEventNames = [''mousemove'', ''mousedown'', ''keydown'', ''touchstart'', ''scroll''],
      initialState = False\<rparr>"

definition geo_off :: geo_options where
  "geo_off = \<lparr>enabled = False, watch = False, enableHighAccuracy = False,
              geo_timeout = 5000, maximumAge = 0\<rparr>"

definition geo_off_watch :: geo_options where
  "geo_off_watch = \<lparr>enabled = False, watch = True, enableHighAccuracy = True,
              geo_timeout = 10000, maximumAge = 0\<rparr>"

definition somewhere :: GeolocationCoordinates where
  "somewhere = \<lparr>latitude = 40, longitude = -74, accuracy = 20, altitude = None,
                altitudeAccuracy = None, heading = None, speed = None\<rparr>"

text \<open>An event target none of whose four properties has the documented type.\<close>

definition battery_untyped :: battery where
  "battery_untyped =
     \<lparr>bat_level = Inr JUndefined, bat_charging = Inr (JString ''yes''),
      bat_chargingTime = Inr JNull, bat_dischargingTime = Inr JUndefined,
      bat_isEventTarget = True\<rparr>"

text \<open>A later reading of the battery manager in which reading \<^verbatim>\<open>level\<close> throws.\<close>

definition battery_throwing :: battery where
  "battery_throwing =
     \<lparr>bat_level = Inl PlatformError, bat_charging = Inr (JBool True),
      bat_chargingTime = Inr (JNumber (Finite 1200)), bat_dischargingTime = Inr (JNumber PosInfinity),
      bat_isEventTarget = True\<rparr>"

section \<open>Notions used in the statements and proofs\<close>

text \<open>Whether a value is an object with a callable \<^verbatim>\<open>addEventListener\<close>.\<close>

definition is_event_target :: "battery jsval \<Rightarrow> bool" where
  "is_event_target b = (case b of JObject bm \<Rightarrow> bat_isEventTarget bm | _ \<Rightarrow> False)"



text \<open>
  Invariants of the two hooks over a connection or battery object whose listener list was
  \<open>ls\<close> at mount: the hook's own listeners are on the object exactly between a successful
  set-up and teardown; while \<^verbatim>\<open>initBattery\<close> is suspended nothing has been published; the
  promise it returns is never rejected.
\<close>

definition ns_inv :: "listener list \<Rightarrow> ns_state \<Rightarrow> bool" where
  "ns_inv ls st =
     (if ns_cleanup st \<and> \<not> ns_unmounted st
      then conn_listeners st = ls @ [(''change'', HandleChange)]
      else conn_listeners st = ls)"

definition bt_inv :: "listener list \<Rightarrow> bt_state \<Rightarrow> bool" where
  "bt_inv ls st =
     ((mounted st \<longrightarrow> bt_cleanup st \<and> \<not> bt_unmounted st \<and> \<not> then_pending st)
      \<and> (bt_cleanup st \<longrightarrow> cleanup_promise st \<noteq> NotCalled \<and> (bt_unmounted st \<or> mounted st))
      \<and> battery_listeners st =
          (if cleanup_promise st = Settled (Inr True) \<and> mounted st
           then add_battery_listeners ls else ls)
      \<and> (cleanup_promise st = Awaiting \<longrightarrow>
            setBatteryStatus_calls st = [] \<and> bt_onChange_calls st = []
            \<and> batteryStatus st = unsupportedBatteryStatus)
      \<and> (then_pending st \<longrightarrow> cleanup_promise st = Awaiting)
      \<and> (\<forall>e. cleanup_promise st \<noteq> Settled (Inl e)))"

text \<open>The idle detector before its first deadline, and after the deadline has fired in a
  silent run.\<close>

definition idle_waiting :: "idle_config \<Rightarrow> idle_state \<Rightarrow> bool" where
  "idle_waiting cfg st =
     (\<not> isIdle st \<and> deadline st = Some (timeoutMs cfg) \<and> now st < timeoutMs cfg
      \<and> idle_listeners st = trackedEventNames cfg
      \<and> onIdle_calls st = 0 \<and> onActive_calls st = 0 \<and> flag_changes st = [])"

definition idle_fired :: "idle_config \<Rightarrow> idle_state \<Rightarrow> bool" where
  "idle_fired cfg st =
     (isIdle st \<and> deadline st = None \<and> idle_listeners st = trackedEventNames cfg
      \<and> onIdle_calls st = 1 \<and> onActive_calls st = 0 \<and> flag_changes st = [True])"

text \<open>The geolocation accessor at rest: disabled, nothing requested.\<close>

definition geo_disabled :: "geo_state \<Rightarrow> bool" where
  "geo_disabled st =
     (geo st = disabledState \<and> \<not> enabled (geo_opts st) \<and> \<not> outstanding st
      \<and> platform_calls st = [])"

text \<open>
  What makes the initial \<open>updateBatteryStatus\<close> throw: reading one of the four properties
  throws, or the \<^verbatim>\<open>onChange\<close> function held in the ref throws when called.
\<close>

definition a_read_throws :: "battery jsval \<Rightarrow> bool" where
  "a_read_throws b =
     (isl (read_prop bat_level b) \<or> isl (read_prop bat_charging b)
      \<or> isl (read_prop bat_chargingTime b) \<or> isl (read_prop bat_dischargingTime b))"

definition callback_throws :: "callback option \<Rightarrow> bool" where
  "callback_throws r = (case r of None \<Rightarrow> False | Some cb \<Rightarrow> cb_throws cb \<noteq> None)"


section \<open>Properties of useNetworkSpeed\<close>

lemma cb_throws_examples [simp]:
  "cb_throws cb7 = None" "cb_throws cb8 = None"
  by (simp_all add: cb7_def cb8_def)

lemma handleChange_listeners [simp]:
  "conn_listeners (handleChange conn st) = conn_listeners st"
  by (simp add: handleChange_def Let_def split: option.splits)

lemma handleChange_flags [simp]:
  "ns_cleanup (handleChange conn st) = ns_cleanup st"
  "ns_unmounted (handleChange conn st) = ns_unmounted st"
  "onChangeRef (handleChange conn st) = onChangeRef st"
  by (simp_all add: handleChange_def Let_def split: option.splits)

text \<open>A dispatch runs \<open>handleChange\<close> once for each time the hook's handler is in the
  listener list under the dispatched name.\<close>

lemma ns_fold_dispatch:
  "fold (\<lambda>l s. if fst l = ev then ns_run_handler (snd l) conn s else s) ls st
     = (handleChange conn ^^ count_list ls (ev, HandleChange)) st"
proof (induction ls arbitrary: st)
  case Nil
  show ?case by simp
next
  case (Cons l ls)
  show ?case
  proof (cases "l = (ev, HandleChange)")
    case True
    then show ?thesis
      by (simp add: Cons.IH ns_run_handler_def funpow_swap1)
  next
    case False
    then have "(if fst l = ev then ns_run_handler (snd l) conn st else st) = st"
      by (cases l) (auto simp: ns_run_handler_def split: handler.splits)
    with False show ?thesis
      by (simp add: Cons.IH)
  qed
qed

lemma ns_dispatch_funpow:
  "ns_dispatch ev conn st =
     (handleChange conn ^^ count_list (conn_listeners st) (ev, HandleChange)) st"
  unfolding ns_dispatch_def by (rule ns_fold_dispatch)


lemma useNetworkSpeed_browser_env:
  "useNetworkSpeed browser_env (Some cb7) [(''change'', Foreign 0)] =
     \<lparr>networkInfo = \<lparr>effectiveType = JString ''4g'', downlink = JNumber (Finite 10),
                      rtt = JNumber (Finite 50), saveData = JBool False\<rparr>,
      onChangeRef = Some cb7,
      conn_listeners = [(''change'', Foreign 0), (''change'', HandleChange)],
      setNetworkInfo_calls = [], onChange_calls = [], ns_warnings = [], ns_uncaught = [],
      ns_cleanup = True, ns_unmounted = False\<rparr>"
  by (simp add: useNetworkSpeed_def ns_effect_def initialNetworkInfo_def read_conn_def
      browser_env_def conn_4g_def optchain_def js_or_def addEventListener_def)


subsection \<open>The listener of useNetworkSpeed over a run\<close>


lemma foreign_not_own:
  "list_all is_foreign ls \<Longrightarrow> (ev, HandleChange) \<notin> set ls"
  by (auto simp: list_all_iff is_foreign_def)

lemma foreign_count: "list_all is_foreign ls \<Longrightarrow> count_list ls (ev, HandleChange) = 0"
  by (simp add: foreign_not_own)

lemma foreign_filter:
  "list_all is_foreign ls \<Longrightarrow> filter (\<lambda>l. l \<noteq> (ev, HandleChange)) ls = ls"
  by (auto simp: list_all_iff is_foreign_def intro!: filter_True)

lemma funpow_handleChange_fields [simp]:
  "conn_listeners ((handleChange conn ^^ n) st) = conn_listeners st"
  "ns_cleanup ((handleChange conn ^^ n) st) = ns_cleanup st"
  "ns_unmounted ((handleChange conn ^^ n) st) = ns_unmounted st"
  by (induction n) simp_all

lemma ns_inv_mount:
  assumes "list_all is_foreign ls"
  shows "ns_inv ls (useNetworkSpeed env cb ls)" "\<not> ns_unmounted (useNetworkSpeed env cb ls)"
  using foreign_not_own [OF assms, of "''change''"]
  by (auto simp: ns_inv_def useNetworkSpeed_def ns_effect_def ns_warn_def addEventListener_def
      split: sum.splits jsval.splits)

lemma ns_inv_step:
  assumes "list_all is_foreign ls" "ns_inv ls st"
  shows "ns_inv ls (ns_step e st)"
proof (cases e)
  case (Render cb)
  with assms show ?thesis by (simp add: ns_inv_def)
next
  case (Notify ev conn)
  with assms show ?thesis by (simp add: ns_inv_def ns_dispatch_funpow)
next
  case Unmount
  with assms foreign_filter [OF assms(1), of "''change''"] show ?thesis
    by (auto simp: ns_inv_def ns_cleanup_fn_def removeEventListener_def)
qed

lemma ns_inv_run:
  assumes "list_all is_foreign ls" "ns_inv ls st"
  shows "ns_inv ls (ns_run evs st)"
  using assms(2) unfolding ns_run_def
  by (induction evs arbitrary: st) (simp_all add: ns_inv_step [OF assms(1)])

lemma ns_run_append: "ns_run (xs @ ys) st = ns_run ys (ns_run xs st)"
  by (simp add: ns_run_def)

lemma ns_unmount_unmounted: "ns_unmounted (ns_step Unmount st)"
  by simp

lemma ns_dead_step:
  assumes "list_all is_foreign ls" "ns_inv ls st" "ns_unmounted st"
  shows "ns_step e st = st"
proof (cases e)
  case (Notify ev conn)
  from assms have "conn_listeners st = ls" by (simp add: ns_inv_def)
  with Notify foreign_count [OF assms(1)] show ?thesis by (simp add: ns_dispatch_funpow)
qed (use assms in simp_all)

lemma ns_dead_run:
  assumes "list_all is_foreign ls" "ns_inv ls st" "ns_unmounted st"
  shows "ns_run evs st = st"
  unfolding ns_run_def
  by (induction evs) (simp_all add: ns_dead_step [OF assms])

lemma ns_after_unmount:
  assumes "list_all is_foreign ls"
  shows "ns_run (evs1 @ Unmount # evs2) (useNetworkSpeed env cb ls)
       = ns_run (evs1 @ [Unmount]) (useNetworkSpeed env cb ls)"
    and "conn_listeners (ns_run (evs1 @ [Unmount]) (useNetworkSpeed env cb ls)) = ls"
proof -
  let ?st = "ns_run (evs1 @ [Unmount]) (useNetworkSpeed env cb ls)"
  have inv: "ns_inv ls ?st"
    by (rule ns_inv_run [OF assms ns_inv_mount(1) [OF assms]])
  have dead: "ns_unmounted ?st"
    by (simp add: ns_run_append ns_run_def)
  have "ns_run (evs1 @ Unmount # evs2) (useNetworkSpeed env cb ls) = ns_run evs2 ?st"
    by (simp add: ns_run_def)
  then show "ns_run (evs1 @ Unmount # evs2) (useNetworkSpeed env cb ls) = ?st"
    by (simp add: ns_dead_run [OF assms inv dead])
  from inv dead show "conn_listeners ?st = ls" by (simp add: ns_inv_def)
qed


section \<open>Properties of useBattery\<close>


lemma publishBatteryStatus_fields [simp]:
  "mounted (fst (publishBatteryStatus n st)) = mounted st"
  "cleanup_promise (fst (publishBatteryStatus n st)) = cleanup_promise st"
  "then_pending (fst (publishBatteryStatus n st)) = then_pending st"
  "battery_listeners (fst (publishBatteryStatus n st)) = battery_listeners st"
  "bt_cleanup (fst (publishBatteryStatus n st)) = bt_cleanup st"
  "bt_unmounted (fst (publishBatteryStatus n st)) = bt_unmounted st"
  "bt_onChangeRef (fst (publishBatteryStatus n st)) = bt_onChangeRef st"
  "batteryRef (fst (publishBatteryStatus n st)) = batteryRef st"
  "bt_warnings (fst (publishBatteryStatus n st)) = bt_warnings st"
  "bt_uncaught (fst (publishBatteryStatus n st)) = bt_uncaught st"
  by (simp_all add: publishBatteryStatus_def Let_def split: option.splits)

lemma updateBatteryStatus_unmounted [simp]:
  "\<not> mounted st \<Longrightarrow> updateBatteryStatus b st = (st, None)"
  by (simp add: updateBatteryStatus_def)

lemma updateBatteryStatus_fields [simp]:
  "mounted (fst (updateBatteryStatus b st)) = mounted st"
  "cleanup_promise (fst (updateBatteryStatus b st)) = cleanup_promise st"
  "then_pending (fst (updateBatteryStatus b st)) = then_pending st"
  "battery_listeners (fst (updateBatteryStatus b st)) = battery_listeners st"
  "bt_cleanup (fst (updateBatteryStatus b st)) = bt_cleanup st"
  "bt_unmounted (fst (updateBatteryStatus b st)) = bt_unmounted st"
  "bt_onChangeRef (fst (updateBatteryStatus b st)) = bt_onChangeRef st"
  "batteryRef (fst (updateBatteryStatus b st)) = batteryRef st"
  "bt_warnings (fst (updateBatteryStatus b st)) = bt_warnings st"
  "bt_uncaught (fst (updateBatteryStatus b st)) = bt_uncaught st"
  by (simp_all add: updateBatteryStatus_def split: sum.splits)

lemma handler_call_unmounted [simp]:
  "\<not> mounted st \<Longrightarrow> handler_call bm st = st"
  by (simp add: handler_call_def)

lemma handler_call_fields [simp]:
  "mounted (handler_call bm st) = mounted st"
  "cleanup_promise (handler_call bm st) = cleanup_promise st"
  "then_pending (handler_call bm st) = then_pending st"
  "battery_listeners (handler_call bm st) = battery_listeners st"
  "bt_cleanup (handler_call bm st) = bt_cleanup st"
  "bt_unmounted (handler_call bm st) = bt_unmounted st"
  "bt_onChangeRef (handler_call bm st) = bt_onChangeRef st"
  "batteryRef (handler_call bm st) = batteryRef st"
  "bt_warnings (handler_call bm st) = bt_warnings st"
proof -
  obtain st' x where u: "updateBatteryStatus (JObject bm) st = (st', x)"
    by (cases "updateBatteryStatus (JObject bm) st")
  then have st': "st' = fst (updateBatteryStatus (JObject bm) st)" by simp
  have h: "handler_call bm st = st' \<or> (\<exists>e. handler_call bm st = st'\<lparr>bt_uncaught := bt_uncaught st' @ [e]\<rparr>)"
    using u by (cases x) (auto simp: handler_call_def)
  from h show "mounted (handler_call bm st) = mounted st"
    unfolding st' by auto
  from h show "cleanup_promise (handler_call bm st) = cleanup_promise st"
    unfolding st' by auto
  from h show "then_pending (handler_call bm st) = then_pending st"
    unfolding st' by auto
  from h show "battery_listeners (handler_call bm st) = battery_listeners st"
    unfolding st' by auto
  from h show "bt_cleanup (handler_call bm st) = bt_cleanup st"
    unfolding st' by auto
  from h show "bt_unmounted (handler_call bm st) = bt_unmounted st"
    unfolding st' by auto
  from h show "bt_onChangeRef (handler_call bm st) = bt_onChangeRef st"
    unfolding st' by auto
  from h show "batteryRef (handler_call bm st) = batteryRef st"
    unfolding st' by auto
  from h show "bt_warnings (handler_call bm st) = bt_warnings st"
    unfolding st' by auto
qed

lemma funpow_handler_call_fields [simp]:
  "mounted ((handler_call bm ^^ n) st) = mounted st"
  "cleanup_promise ((handler_call bm ^^ n) st) = cleanup_promise st"
  "then_pending ((handler_call bm ^^ n) st) = then_pending st"
  "battery_listeners ((handler_call bm ^^ n) st) = battery_listeners st"
  "bt_cleanup ((handler_call bm ^^ n) st) = bt_cleanup st"
  "bt_unmounted ((handler_call bm ^^ n) st) = bt_unmounted st"
  "bt_onChangeRef ((handler_call bm ^^ n) st) = bt_onChangeRef st"
  "batteryRef ((handler_call bm ^^ n) st) = batteryRef st"
  "bt_warnings ((handler_call bm ^^ n) st) = bt_warnings st"
  by (induction n) simp_all

lemma funpow_handler_call_unmounted [simp]:
  "\<not> mounted st \<Longrightarrow> (handler_call bm ^^ n) st = st"
  by (induction n) simp_all

lemma bt_run_handler_cases:
  "bt_run_handler h bm st = st \<or> bt_run_handler h bm st = handler_call bm st"
  by (simp add: bt_run_handler_def split: handler.splits)

lemma bt_fold_dispatch:
  "\<exists>n. fold (\<lambda>l s. if fst l = ev then bt_run_handler (snd l) bm s else s) ls st
         = (handler_call bm ^^ n) st"
proof (induction ls arbitrary: st)
  case Nil
  have "fold (\<lambda>l s. if fst l = ev then bt_run_handler (snd l) bm s else s) [] st
          = (handler_call bm ^^ 0) st" by simp
  then show ?case by blast
next
  case (Cons l ls)
  let ?f = "\<lambda>l s. if fst l = ev then bt_run_handler (snd l) bm s else s"
  have "?f l st = st \<or> ?f l st = handler_call bm st"
    using bt_run_handler_cases [of "snd l" bm st] by (cases "fst l = ev") auto
  then consider "?f l st = st" | "?f l st = handler_call bm st"
    by blast
  then show ?case
  proof cases
    case 1
    with Cons.IH [of st] show ?thesis by simp
  next
    case 2
    from Cons.IH [of "handler_call bm st"] obtain n where
      "fold ?f ls (handler_call bm st) = (handler_call bm ^^ n) (handler_call bm st)"
      by blast
    with 2 have "fold ?f (l # ls) st = (handler_call bm ^^ Suc n) st"
      by (simp add: funpow_swap1)
    then show ?thesis by blast
  qed
qed

lemma bt_dispatch_funpow:
  "\<exists>n. bt_dispatch ev bm st = (handler_call bm ^^ n) st"
  unfolding bt_dispatch_def by (rule bt_fold_dispatch)

lemma bt_fold_foreign:
  "list_all is_foreign ls \<Longrightarrow>
     fold (\<lambda>l s. if fst l = ev then bt_run_handler (snd l) bm s else s) ls st = st"
  by (induction ls arbitrary: st)
     (auto simp: is_foreign_def bt_run_handler_def split: handler.splits)

lemma bt_dispatch_foreign:
  "list_all is_foreign (battery_listeners st) \<Longrightarrow> bt_dispatch ev bm st = st"
  unfolding bt_dispatch_def by (rule bt_fold_foreign)

lemma bt_dispatch_unmounted:
  "\<not> mounted st \<Longrightarrow> bt_dispatch ev bm st = st"
  using bt_dispatch_funpow [of ev bm st] by auto

lemma add_battery_listeners_foreign:
  assumes "list_all is_foreign ls"
  shows "add_battery_listeners ls =
           ls @ [(''levelchange'', HandleLevelChange), (''chargingchange'', HandleChargingChange),
                 (''chargingtimechange'', HandleChargingTimeChange),
                 (''dischargingtimechange'', HandleDischargingTimeChange)]"
proof -
  have "\<And>ev h. h \<noteq> Foreign (case h of Foreign n \<Rightarrow> n | _ \<Rightarrow> 0) \<Longrightarrow> (ev, h) \<notin> set ls"
    using assms by (auto simp: list_all_iff is_foreign_def split: handler.splits)
  then show ?thesis
    by (simp add: add_battery_listeners_def addEventListener_def)
qed

lemma remove_battery_listeners_foreign:
  assumes "list_all is_foreign ls"
  shows "remove_battery_listeners (add_battery_listeners ls) = ls"
proof -
  have "\<And>ev h. h \<noteq> Foreign (case h of Foreign n \<Rightarrow> n | _ \<Rightarrow> 0) \<Longrightarrow>
          filter (\<lambda>l. l \<noteq> (ev, h)) ls = ls"
    using assms by (auto simp: list_all_iff is_foreign_def split: handler.splits intro!: filter_True)
  then show ?thesis
    by (simp add: add_battery_listeners_foreign [OF assms] remove_battery_listeners_def
        removeEventListener_def)
qed


lemma bt_inv_mount: "bt_inv ls (useBattery env cb ls)"
  by (simp add: bt_inv_def useBattery_def bt_effect_def initBattery_catch_def Let_def
      split: option.splits)

lemma initBattery_catch_fields [simp]:
  "snd (initBattery_catch st) = Inr False"
  "mounted (fst (initBattery_catch st)) = mounted st"
  "then_pending (fst (initBattery_catch st)) = then_pending st"
  "battery_listeners (fst (initBattery_catch st)) = battery_listeners st"
  "bt_cleanup (fst (initBattery_catch st)) = bt_cleanup st"
  "bt_unmounted (fst (initBattery_catch st)) = bt_unmounted st"
  "bt_onChangeRef (fst (initBattery_catch st)) = bt_onChangeRef st"
  "bt_warnings (fst (initBattery_catch st)) = bt_warnings st @ [''Error accessing battery status:'']"
  by (simp_all add: initBattery_catch_def Let_def)

lemma initBattery_catch_status:
  "batteryStatus (fst (initBattery_catch st)) =
     (if mounted st then unsupportedBatteryStatus else batteryStatus st)"
  "setBatteryStatus_calls (fst (initBattery_catch st)) =
     (if mounted st then setBatteryStatus_calls st @ [unsupportedBatteryStatus]
      else setBatteryStatus_calls st)"
  "bt_onChange_calls (fst (initBattery_catch st)) = bt_onChange_calls st"
  by (simp_all add: initBattery_catch_def Let_def)

text \<open>The four ways through the body of the \<^verbatim>\<open>try\<close>.\<close>

lemma initBattery_try_cases:
  obtains
    (invalid) "\<not> truthy b \<or> typeof b \<noteq> ''object''"
      "initBattery_try b st = (st, Inl (Error ''Invalid battery object''))"
  | (unmounted) "\<not> mounted st" "initBattery_try b st = (st\<lparr>batteryRef := b\<rparr>, Inr False)"
  | (throws) e where "mounted st"
      "initBattery_try b st = (fst (updateBatteryStatus b (st\<lparr>batteryRef := b\<rparr>)), Inl e)"
  | (registered) "mounted st"
      "initBattery_try b st =
         ((fst (updateBatteryStatus b (st\<lparr>batteryRef := b\<rparr>)))
            \<lparr>battery_listeners := add_battery_listeners (battery_listeners st)\<rparr>, Inr True)"
proof (cases "\<not> truthy b \<or> typeof b \<noteq> ''object''")
  case True
  then have "initBattery_try b st = (st, Inl (Error ''Invalid battery object''))"
    by (auto simp: initBattery_try_def)
  with True show ?thesis by (rule invalid)
next
  case valid: False
  show ?thesis
  proof (cases "mounted st")
    case False
    with valid have "initBattery_try b st = (st\<lparr>batteryRef := b\<rparr>, Inr False)"
      by (simp add: initBattery_try_def Let_def)
    with False show ?thesis by (rule unmounted)
  next
    case True
    obtain st2 x where u: "updateBatteryStatus b (st\<lparr>batteryRef := b\<rparr>) = (st2, x)"
      by (cases "updateBatteryStatus b (st\<lparr>batteryRef := b\<rparr>)")
    then have st2: "st2 = fst (updateBatteryStatus b (st\<lparr>batteryRef := b\<rparr>))" by simp
    have ls: "battery_listeners st2 = battery_listeners st"
      unfolding st2 by simp
    show ?thesis
    proof (cases x)
      case (Some e)
      with valid True u have "initBattery_try b st = (st2, Inl e)"
        by (simp add: initBattery_try_def Let_def)
      with True show ?thesis unfolding st2 by (rule throws)
    next
      case None
      show ?thesis
      proof (cases "\<exists>bm. b = JObject bm \<and> bat_isEventTarget bm")
        case True
        with valid \<open>mounted st\<close> u None ls have
          "initBattery_try b st =
             (st2\<lparr>battery_listeners := add_battery_listeners (battery_listeners st)\<rparr>, Inr True)"
          by (auto simp: initBattery_try_def Let_def)
        with \<open>mounted st\<close> show ?thesis unfolding st2 by (rule registered)
      next
        case False
        with valid \<open>mounted st\<close> u None have "initBattery_try b st = (st2, Inl TypeError)"
          by (cases b) (auto simp: initBattery_try_def Let_def)
        with \<open>mounted st\<close> show ?thesis unfolding st2 by (rule throws)
      qed
    qed
  qed
qed

lemma initBattery_try_fields [simp]:
  "mounted (fst (initBattery_try b st)) = mounted st"
  "then_pending (fst (initBattery_try b st)) = then_pending st"
  "bt_cleanup (fst (initBattery_try b st)) = bt_cleanup st"
  "bt_unmounted (fst (initBattery_try b st)) = bt_unmounted st"
  "bt_onChangeRef (fst (initBattery_try b st)) = bt_onChangeRef st"
  "bt_warnings (fst (initBattery_try b st)) = bt_warnings st"
  by (cases b st rule: initBattery_try_cases; simp)+

lemma initBattery_try_unmounted:
  "\<not> mounted st \<Longrightarrow> snd (initBattery_try b st) \<noteq> Inr True"
  "\<not> mounted st \<Longrightarrow> battery_listeners (fst (initBattery_try b st)) = battery_listeners st"
  "\<not> mounted st \<Longrightarrow> batteryStatus (fst (initBattery_try b st)) = batteryStatus st"
  "\<not> mounted st \<Longrightarrow> setBatteryStatus_calls (fst (initBattery_try b st)) = setBatteryStatus_calls st"
  "\<not> mounted st \<Longrightarrow> bt_onChange_calls (fst (initBattery_try b st)) = bt_onChange_calls st"
  by (cases b st rule: initBattery_try_cases; simp)+

lemma initBattery_try_listeners:
  "battery_listeners (fst (initBattery_try b st)) =
     (if snd (initBattery_try b st) = Inr True
      then add_battery_listeners (battery_listeners st) else battery_listeners st)"
  by (cases b st rule: initBattery_try_cases) simp_all

lemma initBattery_resume_fields [simp]:
  "mounted (fst (initBattery_resume s st)) = mounted st"
  "then_pending (fst (initBattery_resume s st)) = then_pending st"
  "bt_cleanup (fst (initBattery_resume s st)) = bt_cleanup st"
  "bt_unmounted (fst (initBattery_resume s st)) = bt_unmounted st"
  "bt_onChangeRef (fst (initBattery_resume s st)) = bt_onChangeRef st"
  by (simp_all add: initBattery_resume_def split: settlement.splits prod.splits sum.splits)
     (metis fst_conv initBattery_try_fields)+


lemma initBattery_try_result:
  "snd (initBattery_try b st) = Inr True \<Longrightarrow> mounted st"
  "\<not> mounted st \<Longrightarrow> snd (initBattery_try b st) = Inr False \<or> (\<exists>e. snd (initBattery_try b st) = Inl e)"
  by (cases b st rule: initBattery_try_cases; simp)+

lemma initBattery_resume_result:
  "snd (initBattery_resume s st) = Inr False \<or> snd (initBattery_resume s st) = Inr True"
  by (cases s; cases "initBattery_try (case s of Fulfilled b \<Rightarrow> b) st")
     (auto simp: initBattery_resume_def split: sum.splits)

lemma initBattery_resume_True:
  "snd (initBattery_resume s st) = Inr True \<Longrightarrow> mounted st"
proof (cases s)
  case (Rejected e)
  assume "snd (initBattery_resume s st) = Inr True"
  with Rejected show ?thesis by (simp add: initBattery_resume_def)
next
  case (Fulfilled b)
  assume a: "snd (initBattery_resume s st) = Inr True"
  obtain st' r where t: "initBattery_try b st = (st', r)" by (cases "initBattery_try b st")
  with a Fulfilled have "r = Inr True"
    by (cases r) (auto simp: initBattery_resume_def)
  with t initBattery_try_result(1) [of b st] show ?thesis by simp
qed

lemma initBattery_resume_listeners:
  "battery_listeners (fst (initBattery_resume s st)) =
     (if snd (initBattery_resume s st) = Inr True
      then add_battery_listeners (battery_listeners st) else battery_listeners st)"
proof (cases s)
  case (Rejected e)
  then show ?thesis by (simp add: initBattery_resume_def)
next
  case (Fulfilled b)
  obtain st' r where t: "initBattery_try b st = (st', r)" by (cases "initBattery_try b st")
  with initBattery_try_listeners [of b st] Fulfilled show ?thesis
    by (cases r) (auto simp: initBattery_resume_def)
qed

lemma initBattery_resume_unmounted:
  assumes "\<not> mounted st"
  shows "batteryStatus (fst (initBattery_resume s st)) = batteryStatus st"
    and "setBatteryStatus_calls (fst (initBattery_resume s st)) = setBatteryStatus_calls st"
    and "bt_onChange_calls (fst (initBattery_resume s st)) = bt_onChange_calls st"
proof -
  have "batteryStatus (fst (initBattery_resume s st)) = batteryStatus st
      \<and> setBatteryStatus_calls (fst (initBattery_resume s st)) = setBatteryStatus_calls st
      \<and> bt_onChange_calls (fst (initBattery_resume s st)) = bt_onChange_calls st"
  proof (cases s)
    case (Rejected e)
    with assms show ?thesis by (simp add: initBattery_resume_def initBattery_catch_status)
  next
    case (Fulfilled b)
    obtain st' r where t: "initBattery_try b st = (st', r)" by (cases "initBattery_try b st")
    from t have st': "st' = fst (initBattery_try b st)" by simp
    from assms have "\<not> mounted st'" unfolding st' by simp
    with Fulfilled t assms initBattery_try_unmounted(3-5) [OF assms, of b] show ?thesis
      by (cases r) (auto simp: initBattery_resume_def initBattery_catch_status)
  qed
  then show "batteryStatus (fst (initBattery_resume s st)) = batteryStatus st"
    and "setBatteryStatus_calls (fst (initBattery_resume s st)) = setBatteryStatus_calls st"
    and "bt_onChange_calls (fst (initBattery_resume s st)) = bt_onChange_calls st"
    by simp_all
qed

lemma run_microtasks_fields [simp]:
  "mounted (run_microtasks st) = mounted st"
  "cleanup_promise (run_microtasks st) = cleanup_promise st"
  "bt_cleanup (run_microtasks st) = bt_cleanup st"
  "bt_unmounted (run_microtasks st) = bt_unmounted st"
  "bt_onChangeRef (run_microtasks st) = bt_onChangeRef st"
  "batteryStatus (run_microtasks st) = batteryStatus st"
  "setBatteryStatus_calls (run_microtasks st) = setBatteryStatus_calls st"
  "bt_onChange_calls (run_microtasks st) = bt_onChange_calls st"
  "bt_warnings (run_microtasks st) = bt_warnings st"
  by (simp_all add: run_microtasks_def split: init_promise.splits sum.splits bool.splits)

lemma run_microtasks_idle [simp]: "\<not> then_pending st \<Longrightarrow> run_microtasks st = st"
  by (simp add: run_microtasks_def)

lemma settle_fields [simp]:
  "mounted (settle s st) = mounted st"
  "bt_cleanup (settle s st) = bt_cleanup st"
  "bt_unmounted (settle s st) = bt_unmounted st"
  "bt_onChangeRef (settle s st) = bt_onChangeRef st"
  "cleanup_promise (settle s st) = Settled (snd (initBattery_resume s st))"
  "batteryStatus (settle s st) = batteryStatus (fst (initBattery_resume s st))"
  "setBatteryStatus_calls (settle s st) = setBatteryStatus_calls (fst (initBattery_resume s st))"
  "bt_onChange_calls (settle s st) = bt_onChange_calls (fst (initBattery_resume s st))"
  by (simp_all add: settle_def split: prod.splits)
     (metis fst_conv initBattery_resume_fields)+

lemma bt_inv_settle:
  assumes "bt_inv ls st" "cleanup_promise st = Awaiting"
  shows "bt_inv ls (settle s st)"
proof -
  obtain st' r where res: "initBattery_resume s st = (st', r)"
    by (cases "initBattery_resume s st")
  have st': "st' = fst (initBattery_resume s st)" and r: "r = snd (initBattery_resume s st)"
    using res by simp_all
  have r_cases: "r = Inr False \<or> r = Inr True"
    unfolding r by (rule initBattery_resume_result)
  have r_True: "r = Inr True \<Longrightarrow> mounted st"
    unfolding r by (rule initBattery_resume_True)
  have ls': "battery_listeners st' = (if r = Inr True then add_battery_listeners ls else ls)"
    using assms initBattery_resume_listeners [of s st] r_True
    unfolding st' r bt_inv_def by auto
  have flags: "mounted st' = mounted st" "then_pending st' = then_pending st"
    "bt_cleanup st' = bt_cleanup st" "bt_unmounted st' = bt_unmounted st"
    unfolding st' by simp_all
  have "settle s st = run_microtasks (st'\<lparr>cleanup_promise := Settled r\<rparr>)"
    by (simp add: settle_def res)
  moreover have "bt_inv ls (run_microtasks (st'\<lparr>cleanup_promise := Settled r\<rparr>))"
    using assms(1) r_cases r_True ls' flags
    by (auto simp: bt_inv_def run_microtasks_def)
  ultimately show ?thesis by simp
qed

lemma bt_inv_step:
  assumes "list_all is_foreign ls" "bt_inv ls st"
  shows "bt_inv ls (bt_step e st)"
proof (cases e)
  case (BatRender cb)
  with assms show ?thesis by (auto simp: bt_inv_def)
next
  case (BatSettle s)
  with assms bt_inv_settle show ?thesis by simp
next
  case (BatNotify ev bm)
  show ?thesis
  proof (cases "cleanup_promise st = Awaiting")
    case True
    with assms have "bt_dispatch ev bm st = st"
      by (intro bt_dispatch_foreign) (simp add: bt_inv_def)
    with BatNotify assms show ?thesis by simp
  next
    case False
    obtain n where "bt_dispatch ev bm st = (handler_call bm ^^ n) st"
      using bt_dispatch_funpow by blast
    with BatNotify assms False show ?thesis by (simp add: bt_inv_def)
  qed
next
  case BatUnmount
  with assms remove_battery_listeners_foreign [OF assms(1)] show ?thesis
    by (auto simp: bt_inv_def bt_cleanup_fn_def run_microtasks_def
        split: init_promise.splits sum.splits bool.splits)
qed

lemma bt_inv_run:
  assumes "list_all is_foreign ls" "bt_inv ls st"
  shows "bt_inv ls (bt_run evs st)"
  using assms(2) unfolding bt_run_def
  by (induction evs arbitrary: st) (simp_all add: bt_inv_step [OF assms(1)])

section \<open>Lifecycle properties of the two monitor hooks\<close>

lemma bt_run_append: "bt_run (xs @ ys) st = bt_run ys (bt_run xs st)"
  by (simp add: bt_run_def)

lemma bt_dead_step:
  assumes "\<not> mounted st"
  shows "\<not> mounted (bt_step e st)"
    and "batteryStatus (bt_step e st) = batteryStatus st"
    and "setBatteryStatus_calls (bt_step e st) = setBatteryStatus_calls st"
    and "bt_onChange_calls (bt_step e st) = bt_onChange_calls st"
  using assms
  by (cases e; simp add: bt_dispatch_unmounted initBattery_resume_unmounted bt_cleanup_fn_def)+

lemma bt_dead_run:
  assumes "\<not> mounted st"
  shows "\<not> mounted (bt_run evs st)
       \<and> batteryStatus (bt_run evs st) = batteryStatus st
       \<and> setBatteryStatus_calls (bt_run evs st) = setBatteryStatus_calls st
       \<and> bt_onChange_calls (bt_run evs st) = bt_onChange_calls st"
  using assms unfolding bt_run_def
proof (induction evs arbitrary: st)
  case Nil
  then show ?case by simp
next
  case (Cons e evs)
  from Cons.IH [OF bt_dead_step(1) [OF Cons.prems, of e]] bt_dead_step(2-4) [OF Cons.prems, of e]
  show ?case by simp
qed

lemma bt_unmount_not_mounted:
  assumes "bt_inv ls st"
  shows "\<not> mounted (bt_step BatUnmount st)"
  using assms by (auto simp: bt_inv_def bt_cleanup_fn_def)

lemma bt_unmount_keeps:
  "batteryStatus (bt_step BatUnmount st) = batteryStatus st"
  "setBatteryStatus_calls (bt_step BatUnmount st) = setBatteryStatus_calls st"
  "bt_onChange_calls (bt_step BatUnmount st) = bt_onChange_calls st"
  by (simp_all add: bt_cleanup_fn_def)

text \<open>
  C2. After teardown nothing is published any more. Whatever happened before the unmount
  and whatever the platform does afterwards (further notifications, the late settlement
  of the \<^verbatim>\<open>getBattery\<close> promise, either way), the component state, the trace of state
  updates and the trace of \<^verbatim>\<open>onChange\<close> invocations of each hook stay as teardown left
  them. For useBattery the publish path itself is closed as well: \<open>updateBatteryStatus\<close>
  on any value changes nothing and throws nothing from then on.
\<close>

theorem no_publish_after_teardown:
  assumes "list_all is_foreign ls"
  shows "networkInfo (ns_run (evs1 @ Unmount # evs2) (useNetworkSpeed env cb ls)) =
           networkInfo (ns_run (evs1 @ [Unmount]) (useNetworkSpeed env cb ls))
       \<and> setNetworkInfo_calls (ns_run (evs1 @ Unmount # evs2) (useNetworkSpeed env cb ls)) =
           setNetworkInfo_calls (ns_run (evs1 @ [Unmount]) (useNetworkSpeed env cb ls))
       \<and> onChange_calls (ns_run (evs1 @ Unmount # evs2) (useNetworkSpeed env cb ls)) =
           onChange_calls (ns_run (evs1 @ [Unmount]) (useNetworkSpeed env cb ls))
       \<and> batteryStatus (bt_run (bevs1 @ BatUnmount # bevs2) (useBattery env cb ls)) =
           batteryStatus (bt_run (bevs1 @ [BatUnmount]) (useBattery env cb ls))
       \<and> setBatteryStatus_calls (bt_run (bevs1 @ BatUnmount # bevs2) (useBattery env cb ls)) =
           setBatteryStatus_calls (bt_run (bevs1 @ [BatUnmount]) (useBattery env cb ls))
       \<and> bt_onChange_calls (bt_run (bevs1 @ BatUnmount # bevs2) (useBattery env cb ls)) =
           bt_onChange_calls (bt_run (bevs1 @ [BatUnmount]) (useBattery env cb ls))
       \<and> updateBatteryStatus b (bt_run (bevs1 @ BatUnmount # bevs2) (useBattery env cb ls)) =
           (bt_run (bevs1 @ BatUnmount # bevs2) (useBattery env cb ls), None)"
proof -
  let ?B1 = "bt_run (bevs1 @ [BatUnmount]) (useBattery env cb ls)"
  have inv: "bt_inv ls (bt_run bevs1 (useBattery env cb ls))"
    by (rule bt_inv_run [OF assms bt_inv_mount])
  have eq: "?B1 = bt_step BatUnmount (bt_run bevs1 (useBattery env cb ls))"
    by (simp add: bt_run_def)
  have dead: "\<not> mounted ?B1"
    unfolding eq by (rule bt_unmount_not_mounted [OF inv])
  have split: "bt_run (bevs1 @ BatUnmount # bevs2) (useBattery env cb ls) = bt_run bevs2 ?B1"
    by (simp add: bt_run_def)
  from bt_dead_run [OF dead, of bevs2] ns_after_unmount(1) [OF assms, of evs1 evs2 env cb]
  show ?thesis
    unfolding split by simp
qed


lemmas ns_eval = ns_run_def ns_dispatch_def ns_run_handler_def handleChange_def ns_cleanup_fn_def
  removeEventListener_def addEventListener_def js_or_def conn_3g_def conn_4g_def is_foreign_def
  Let_def

lemmas bt_eval = bt_run_def bt_dispatch_def bt_run_handler_def updateBatteryStatus_def settle_def
  initBattery_resume_def initBattery_try_def initBattery_catch_def run_microtasks_def
  bt_cleanup_fn_def add_battery_listeners_def remove_battery_listeners_def
  removeEventListener_def addEventListener_def optchain_def battery_half_def battery_third_def
  battery_plain_object_def is_foreign_def Let_def handler_call_def publishBatteryStatus_def
  newBatteryStatus_def read_prop_def

lemma useBattery_browser_env:
  "useBattery browser_env (Some cb7) [(''change'', Foreign 0)] =
     \<lparr>batteryStatus = unsupportedBatteryStatus, bt_onChangeRef = Some cb7, batteryRef = JNull,
      mounted = True, cleanup_promise = Awaiting, then_pending = False,
      battery_listeners = [(''change'', Foreign 0)], setBatteryStatus_calls = [],
      bt_onChange_calls = [], bt_warnings = [], bt_uncaught = [], bt_cleanup = True, bt_unmounted = False\<rparr>"
  by (simp add: useBattery_def bt_effect_def browser_env_def)

lemma ns_example_run:
  "ns_run [Notify ''change'' conn_3g, Unmount]
     (useNetworkSpeed browser_env (Some cb7) [(''change'', Foreign 0)]) =
     \<lparr>networkInfo = \<lparr>effectiveType = JString ''3g'', downlink = JNumber (Finite 0),
                      rtt = JNumber (Finite 0), saveData = JBool True\<rparr>,
      onChangeRef = Some cb7,
      conn_listeners = [(''change'', Foreign 0)],
      setNetworkInfo_calls = [\<lparr>effectiveType = JString ''3g'', downlink = JNumber (Finite 0),
                      rtt = JNumber (Finite 0), saveData = JBool True\<rparr>],
      onChange_calls = [(cb7, \<lparr>effectiveType = JString ''3g'', downlink = JNumber (Finite 0),
                      rtt = JNumber (Finite 0), saveData = JBool True\<rparr>)],
      ns_warnings = [], ns_uncaught = [], ns_cleanup = True, ns_unmounted = True\<rparr>"
  by (simp add: useNetworkSpeed_browser_env ns_eval)

lemma bt_example_run:
  "bt_run [BatSettle (Fulfilled (JObject battery_half)), BatUnmount]
     (useBattery browser_env (Some cb7) [(''change'', Foreign 0)]) =
     \<lparr>batteryStatus = \<lparr>level = JNumber (Finite (1 / 2)), charging = JBool True,
         chargingTime = JNumber (Finite 1200), dischargingTime = JNumber PosInfinity,
         supported = True\<rparr>,
      bt_onChangeRef = Some cb7, batteryRef = JObject battery_half,
      mounted = False, cleanup_promise = Settled (Inr True), then_pending = False,
      battery_listeners = [(''change'', Foreign 0)],
      setBatteryStatus_calls = [\<lparr>level = JNumber (Finite (1 / 2)), charging = JBool True,
         chargingTime = JNumber (Finite 1200), dischargingTime = JNumber PosInfinity,
         supported = True\<rparr>],
      bt_onChange_calls = [(cb7, \<lparr>level = JNumber (Finite (1 / 2)), charging = JBool True,
         chargingTime = JNumber (Finite 1200), dischargingTime = JNumber PosInfinity,
         supported = True\<rparr>)],
      bt_warnings = [], bt_uncaught = [], bt_cleanup = True, bt_unmounted = True\<rparr>"
  by (simp add: useBattery_browser_env bt_eval)

theorem no_publish_after_teardown_witness:
  "list_all is_foreign [(''change'', Foreign 0)]
   \<and> setNetworkInfo_calls
       (ns_run ([Notify ''change'' conn_3g] @ Unmount # [Notify ''change'' conn_4g])
          (useNetworkSpeed browser_env (Some cb7) [(''change'', Foreign 0)])) =
       [\<lparr>effectiveType = JString ''3g'', downlink = JNumber (Finite 0),
         rtt = JNumber (Finite 0), saveData = JBool True\<rparr>]
   \<and> bt_onChange_calls
       (bt_run ([BatSettle (Fulfilled (JObject battery_half))] @ BatUnmount #
                [BatNotify ''levelchange'' battery_third])
          (useBattery browser_env (Some cb7) [(''change'', Foreign 0)])) =
       [(cb7, \<lparr>level = JNumber (Finite (1 / 2)), charging = JBool True,
             chargingTime = JNumber (Finite 1200), dischargingTime = JNumber PosInfinity,
             supported = True\<rparr>)]"
proof -
  have h: "list_all is_foreign [(''change'', Foreign 0)]"
    by (simp add: is_foreign_def)
  show ?thesis
    using h no_publish_after_teardown [OF h, of "[Notify ''change'' conn_3g]"
        "[Notify ''change'' conn_4g]" browser_env "Some cb7"
        "[BatSettle (Fulfilled (JObject battery_half))]"
        "[BatNotify ''levelchange'' battery_third]" JNull]
    by (simp add: ns_example_run bt_example_run)
qed

text \<open>
  C5. Every listener a hook registers is removed at deactivation: once teardown has run,
  and whatever happens afterwards, the listener list of the platform object is again the
  list it was before the hook mounted. (While a successfully set-up hook is mounted the
  list is that list followed by the hook's own listeners: one \<^verbatim>\<open>change\<close> handler for
  useNetworkSpeed, the four battery handlers for useBattery.)
\<close>

theorem listeners_released_at_teardown:
  assumes "list_all is_foreign ls"
  shows "conn_listeners (ns_run (evs1 @ Unmount # evs2) (useNetworkSpeed env cb ls)) = ls
       \<and> battery_listeners (bt_run (bevs1 @ BatUnmount # bevs2) (useBattery env cb ls)) = ls"
proof -
  let ?B1 = "bt_run (bevs1 @ [BatUnmount]) (useBattery env cb ls)"
  let ?B2 = "bt_run (bevs1 @ BatUnmount # bevs2) (useBattery env cb ls)"
  have inv: "bt_inv ls (bt_run bevs1 (useBattery env cb ls))"
    by (rule bt_inv_run [OF assms bt_inv_mount])
  have eq: "?B1 = bt_step BatUnmount (bt_run bevs1 (useBattery env cb ls))"
    by (simp add: bt_run_def)
  have dead: "\<not> mounted ?B1"
    unfolding eq by (rule bt_unmount_not_mounted [OF inv])
  have split: "?B2 = bt_run bevs2 ?B1"
    by (simp add: bt_run_def)
  have "\<not> mounted ?B2"
    unfolding split using bt_dead_run [OF dead, of bevs2] by simp
  moreover have "bt_inv ls ?B2"
    by (rule bt_inv_run [OF assms bt_inv_mount])
  ultimately have "battery_listeners ?B2 = ls"
    by (simp add: bt_inv_def)
  with ns_after_unmount(1) [OF assms, of evs1 evs2 env cb]
    ns_after_unmount(2) [OF assms, of evs1 env cb]
  show ?thesis
    by simp
qed

lemma bt_example_mounted_listeners:
  "battery_listeners (bt_run [BatSettle (Fulfilled (JObject battery_half))]
     (useBattery browser_env (Some cb7) [(''change'', Foreign 0)])) =
     [(''change'', Foreign 0), (''levelchange'', HandleLevelChange),
      (''chargingchange'', HandleChargingChange),
      (''chargingtimechange'', HandleChargingTimeChange),
      (''dischargingtimechange'', HandleDischargingTimeChange)]"
  by (simp add: useBattery_browser_env bt_eval)

theorem listeners_released_at_teardown_witness:
  "list_all is_foreign [(''change'', Foreign 0)]
   \<and> conn_listeners (useNetworkSpeed browser_env (Some cb7) [(''change'', Foreign 0)]) =
       [(''change'', Foreign 0), (''change'', HandleChange)]
   \<and> conn_listeners (ns_run ([] @ Unmount # [])
        (useNetworkSpeed browser_env (Some cb7) [(''change'', Foreign 0)])) =
       [(''change'', Foreign 0)]
   \<and> battery_listeners (bt_run [BatSettle (Fulfilled (JObject battery_half))]
        (useBattery browser_env (Some cb7) [(''change'', Foreign 0)])) =
       [(''change'', Foreign 0), (''levelchange'', HandleLevelChange),
        (''chargingchange'', HandleChargingChange),
        (''chargingtimechange'', HandleChargingTimeChange),
        (''dischargingtimechange'', HandleDischargingTimeChange)]
   \<and> battery_listeners (bt_run ([BatSettle (Fulfilled (JObject battery_half))] @ BatUnmount # [])
        (useBattery browser_env (Some cb7) [(''change'', Foreign 0)])) =
       [(''change'', Foreign 0)]"
proof -
  have h: "list_all is_foreign [(''change'', Foreign 0)]"
    by (simp add: is_foreign_def)
  show ?thesis
    using h listeners_released_at_teardown [OF h, of "[]" "[]" browser_env "Some cb7"
        "[BatSettle (Fulfilled (JObject battery_half))]" "[]"]
    by (simp add: useNetworkSpeed_browser_env bt_example_mounted_listeners)
qed

lemma bt_dead_step_promise:
  assumes "\<not> mounted st" "cleanup_promise st \<noteq> Settled (Inr True)"
  shows "cleanup_promise (bt_step e st) \<noteq> Settled (Inr True)"
proof (cases e)
  case (BatSettle s)
  with assms initBattery_resume_True [of s st] show ?thesis by auto
qed (use assms in \<open>simp_all add: bt_dispatch_unmounted bt_cleanup_fn_def\<close>)

lemma bt_dead_run_promise:
  assumes "\<not> mounted st" "cleanup_promise st \<noteq> Settled (Inr True)"
  shows "cleanup_promise (bt_run evs st) \<noteq> Settled (Inr True)"
  using assms unfolding bt_run_def
proof (induction evs arbitrary: st)
  case Nil
  then show ?case by simp
next
  case (Cons e evs)
  from Cons.IH [OF bt_dead_step(1) [OF Cons.prems(1), of e] bt_dead_step_promise [OF Cons.prems, of e]]
  show ?case by simp
qed

text \<open>
  C9. When teardown runs while \<^verbatim>\<open>initBattery\<close> is still suspended at the \<^verbatim>\<open>await\<close>, that
  activation never registers a battery listener and never publishes: whatever the promise
  settles to afterwards and whatever else happens, the listener list is the one found at
  mount, no \<^verbatim>\<open>setBatteryStatus\<close> call and no \<^verbatim>\<open>onChange\<close> invocation has been made, the
  state is still the initial one, and \<^verbatim>\<open>initBattery\<close> has not returned a cleanup function.
\<close>

theorem teardown_before_resolution_registers_nothing:
  assumes "list_all is_foreign ls"
    and "cleanup_promise (bt_run evs1 (useBattery env cb ls)) = Awaiting"
  shows "battery_listeners (bt_run (evs1 @ BatUnmount # evs2) (useBattery env cb ls)) = ls
       \<and> setBatteryStatus_calls (bt_run (evs1 @ BatUnmount # evs2) (useBattery env cb ls)) = []
       \<and> bt_onChange_calls (bt_run (evs1 @ BatUnmount # evs2) (useBattery env cb ls)) = []
       \<and> batteryStatus (bt_run (evs1 @ BatUnmount # evs2) (useBattery env cb ls)) =
           unsupportedBatteryStatus
       \<and> cleanup_promise (bt_run (evs1 @ BatUnmount # evs2) (useBattery env cb ls)) \<noteq>
           Settled (Inr True)"
proof -
  let ?B0 = "bt_run evs1 (useBattery env cb ls)"
  let ?B1 = "bt_step BatUnmount ?B0"
  let ?B2 = "bt_run (evs1 @ BatUnmount # evs2) (useBattery env cb ls)"
  have inv0: "bt_inv ls ?B0"
    by (rule bt_inv_run [OF assms(1) bt_inv_mount])
  with assms(2) have quiet: "setBatteryStatus_calls ?B0 = []" "bt_onChange_calls ?B0 = []"
    "batteryStatus ?B0 = unsupportedBatteryStatus"
    by (simp_all add: bt_inv_def)
  have dead: "\<not> mounted ?B1"
    by (rule bt_unmount_not_mounted [OF inv0])
  have split: "?B2 = bt_run evs2 ?B1"
    by (simp add: bt_run_def)
  have inv2: "bt_inv ls ?B2"
    by (rule bt_inv_run [OF assms(1) bt_inv_mount])
  have dead2: "\<not> mounted ?B2"
    unfolding split using bt_dead_run [OF dead, of evs2] by simp
  have "battery_listeners ?B2 = ls"
    using inv2 dead2 by (simp add: bt_inv_def)
  moreover have "setBatteryStatus_calls ?B2 = []" "bt_onChange_calls ?B2 = []"
    "batteryStatus ?B2 = unsupportedBatteryStatus"
    unfolding split using bt_dead_run [OF dead, of evs2] quiet bt_unmount_keeps [of ?B0]
    by simp_all
  moreover have "cleanup_promise ?B1 \<noteq> Settled (Inr True)"
    using assms(2) by (simp add: bt_cleanup_fn_def)
  then have "cleanup_promise ?B2 \<noteq> Settled (Inr True)"
    unfolding split by (rule bt_dead_run_promise [OF dead])
  ultimately show ?thesis by simp
qed

theorem teardown_before_resolution_registers_nothing_witness:
  "list_all is_foreign [(''change'', Foreign 0)]
   \<and> cleanup_promise (bt_run [] (useBattery browser_env (Some cb7) [(''change'', Foreign 0)])) = Awaiting
   \<and> battery_listeners
       (bt_run ([] @ BatUnmount # [BatSettle (Fulfilled (JObject battery_half)),
                                   BatNotify ''levelchange'' battery_third])
          (useBattery browser_env (Some cb7) [(''change'', Foreign 0)])) = [(''change'', Foreign 0)]
   \<and> setBatteryStatus_calls
       (bt_run ([] @ BatUnmount # [BatSettle (Fulfilled (JObject battery_half)),
                                   BatNotify ''levelchange'' battery_third])
          (useBattery browser_env (Some cb7) [(''change'', Foreign 0)])) = []
   \<and> bt_onChange_calls
       (bt_run ([] @ BatUnmount # [BatSettle (Fulfilled (JObject battery_half)),
                                   BatNotify ''levelchange'' battery_third])
          (useBattery browser_env (Some cb7) [(''change'', Foreign 0)])) = []"
proof -
  have h1: "list_all is_foreign [(''change'', Foreign 0)]"
    by (simp add: is_foreign_def)
  have h2: "cleanup_promise (bt_run [] (useBattery browser_env (Some cb7) [(''change'', Foreign 0)]))
              = Awaiting"
    by (simp add: useBattery_browser_env bt_run_def)
  show ?thesis
    using h1 h2 teardown_before_resolution_registers_nothing [OF h1 h2,
        of "[BatSettle (Fulfilled (JObject battery_half)), BatNotify ''levelchange'' battery_third]"]
    by simp
qed

text \<open>
  C4. Without a window, or with the platform feature absent from \<^verbatim>\<open>navigator\<close>, mounting a
  hook yields its documented default, registers no listener (the listener list of the
  platform object is untouched and no cleanup function is returned), and raises nothing
  (no exception is caught or logged either; the battery hook does not even call
  \<^verbatim>\<open>getBattery\<close>).
\<close>

theorem non_interactive_context_gives_safe_default:
  "(\<not> hasWindow env \<or> \<not> connection_in_navigator env \<longrightarrow>
       networkInfo (useNetworkSpeed env cb ls) =
         \<lparr>effectiveType = JString ''unknown'', downlink = JNumber (Finite 0),
          rtt = JNumber (Finite 0), saveData = JBool False\<rparr>
     \<and> conn_listeners (useNetworkSpeed env cb ls) = ls
     \<and> \<not> ns_cleanup (useNetworkSpeed env cb ls)
     \<and> ns_warnings (useNetworkSpeed env cb ls) = [])
   \<and> (\<not> hasWindow env \<or> \<not> getBattery_in_navigator env \<longrightarrow>
       batteryStatus (useBattery env cb ls) =
         \<lparr>level = JNumber (Finite 1), charging = JBool False,
          chargingTime = JNumber PosInfinity, dischargingTime = JNumber PosInfinity,
          supported = False\<rparr>
     \<and> battery_listeners (useBattery env cb ls) = ls
     \<and> cleanup_promise (useBattery env cb ls) = NotCalled
     \<and> \<not> bt_cleanup (useBattery env cb ls)
     \<and> bt_warnings (useBattery env cb ls) = [])"
  by (auto simp: useNetworkSpeed_def ns_effect_def initialNetworkInfo_def unknownNetworkInfo_def
      useBattery_def bt_effect_def unsupportedBatteryStatus_def)

theorem non_interactive_context_gives_safe_default_witness:
  "hasWindow server_env = False
   \<and> networkInfo (useNetworkSpeed server_env (Some cb7) []) =
         \<lparr>effectiveType = JString ''unknown'', downlink = JNumber (Finite 0),
          rtt = JNumber (Finite 0), saveData = JBool False\<rparr>
   \<and> conn_listeners (useNetworkSpeed server_env (Some cb7) []) = []
   \<and> batteryStatus (useBattery server_env (Some cb7) []) =
         \<lparr>level = JNumber (Finite 1), charging = JBool False,
          chargingTime = JNumber PosInfinity, dischargingTime = JNumber PosInfinity,
          supported = False\<rparr>
   \<and> battery_listeners (useBattery server_env (Some cb7) []) = []"
proof -
  have a: "\<not> hasWindow server_env \<or> \<not> connection_in_navigator server_env"
    and b: "\<not> hasWindow server_env \<or> \<not> getBattery_in_navigator server_env"
    by (simp_all add: server_env_def)
  have c: "hasWindow server_env = False"
    by (simp add: server_env_def)
  show ?thesis
    using a b c non_interactive_context_gives_safe_default [of server_env "Some cb7" "[]"]
    by simp
qed

lemma updateBatteryStatus_throws_iff:
  assumes "mounted st" "truthy b"
  shows "(snd (updateBatteryStatus b st) \<noteq> None) =
           (a_read_throws b \<or> callback_throws (bt_onChangeRef st))"
  using assms
  by (auto simp: updateBatteryStatus_def a_read_throws_def callback_throws_def
      publishBatteryStatus_def Let_def split: sum.splits option.splits)

lemma updateBatteryStatus_quiet:
  assumes "mounted st" "truthy b"
    and "read_prop bat_level b = Inr lv" "read_prop bat_charging b = Inr ch"
    and "read_prop bat_chargingTime b = Inr ct" "read_prop bat_dischargingTime b = Inr dt"
  shows "batteryStatus (fst (updateBatteryStatus b st)) = newBatteryStatus lv ch ct dt"
    and "setBatteryStatus_calls (fst (updateBatteryStatus b st)) =
           setBatteryStatus_calls st @ [newBatteryStatus lv ch ct dt]"
    and "bt_onChange_calls (fst (updateBatteryStatus b st)) =
           bt_onChange_calls st @
             (case bt_onChangeRef st of None \<Rightarrow> [] | Some f \<Rightarrow> [(f, newBatteryStatus lv ch ct dt)])"
    and "snd (updateBatteryStatus b st) =
           (case bt_onChangeRef st of None \<Rightarrow> None | Some f \<Rightarrow> cb_throws f)"
  using assms
  by (simp_all add: updateBatteryStatus_def publishBatteryStatus_def Let_def split: option.splits)


lemma initBattery_try_throws:
  assumes "\<not> truthy b \<or> typeof b \<noteq> ''object''
         \<or> (mounted st \<and> (a_read_throws b \<or> callback_throws (bt_onChangeRef st)
                              \<or> \<not> is_event_target b))"
  shows "\<exists>e. snd (initBattery_try b st) = Inl e"
proof (cases b st rule: initBattery_try_cases)
  case invalid
  then show ?thesis by simp
next
  case unmounted
  with assms have "\<not> truthy b \<or> typeof b \<noteq> ''object''" by auto
  then show ?thesis by (auto simp: initBattery_try_def)
next
  case (throws e)
  then show ?thesis by simp
next
  case registered
  show ?thesis
  proof (cases "\<not> truthy b \<or> typeof b \<noteq> ''object''")
    case True
    then show ?thesis by (auto simp: initBattery_try_def)
  next
    case False
    with assms have c: "a_read_throws b \<or> callback_throws (bt_onChangeRef st)
        \<or> \<not> is_event_target b" by auto
    from False registered(1) have m: "mounted (st\<lparr>batteryRef := b\<rparr>)" and t: "truthy b" by simp_all
    from updateBatteryStatus_throws_iff [OF m t]
    have iff: "(snd (updateBatteryStatus b (st\<lparr>batteryRef := b\<rparr>)) \<noteq> None) =
        (a_read_throws b \<or> callback_throws (bt_onChangeRef st))" by simp
    obtain st2 x where u: "updateBatteryStatus b (st\<lparr>batteryRef := b\<rparr>) = (st2, x)"
      by (cases "updateBatteryStatus b (st\<lparr>batteryRef := b\<rparr>)")
    show ?thesis
    proof (cases x)
      case (Some e)
      with False registered(1) u show ?thesis
        by (simp add: initBattery_try_def Let_def)
    next
      case None
      with iff u c have "\<not> is_event_target b" by simp
      with False registered(1) u None show ?thesis
        by (cases b) (simp_all add: initBattery_try_def Let_def is_event_target_def)
    qed
  qed
qed


lemma initBattery_resume_throws:
  assumes "s = Rejected e
         \<or> (\<exists>b. s = Fulfilled b
               \<and> (\<not> truthy b \<or> typeof b \<noteq> ''object''
                   \<or> (mounted st \<and> (a_read_throws b \<or> callback_throws (bt_onChangeRef st)
                                        \<or> \<not> is_event_target b))))"
  shows "snd (initBattery_resume s st) = Inr False
       \<and> bt_warnings (fst (initBattery_resume s st)) =
           bt_warnings st @ [''Error accessing battery status:'']
       \<and> battery_listeners (fst (initBattery_resume s st)) = battery_listeners st
       \<and> batteryStatus (fst (initBattery_resume s st)) =
           (if mounted st then unsupportedBatteryStatus else batteryStatus st)"
proof (cases s)
  case (Rejected e')
  then show ?thesis
    by (simp add: initBattery_resume_def initBattery_catch_status)
next
  case (Fulfilled b)
  with assms have c: "\<not> truthy b \<or> typeof b \<noteq> ''object''
      \<or> (mounted st \<and> (a_read_throws b \<or> callback_throws (bt_onChangeRef st)
                           \<or> \<not> is_event_target b))"
    by auto
  obtain st' r where t: "initBattery_try b st = (st', r)" by (cases "initBattery_try b st")
  from initBattery_try_throws [OF c] t obtain e' where r: "r = Inl e'" by auto
  have st': "st' = fst (initBattery_try b st)" using t by simp
  have res: "initBattery_resume s st = initBattery_catch st'"
    using Fulfilled t r by (simp add: initBattery_resume_def)
  have ls: "battery_listeners st' = battery_listeners st"
    unfolding st' using initBattery_try_listeners [of b st] t r by simp
  have w: "bt_warnings st' = bt_warnings st" and m: "mounted st' = mounted st"
    unfolding st' by simp_all
  have "\<not> mounted st \<Longrightarrow> batteryStatus st' = batteryStatus st"
    unfolding st' by (rule initBattery_try_unmounted(3))
  with ls w m show ?thesis
    unfolding res by (simp add: initBattery_catch_status)
qed

lemma initBattery_resume_registers:
  assumes "mounted st" "bat_isEventTarget bm"
    and "bat_level bm = Inr lv" "bat_charging bm = Inr ch"
    and "bat_chargingTime bm = Inr ct" "bat_dischargingTime bm = Inr dt"
    and "\<not> callback_throws (bt_onChangeRef st)"
  shows "snd (initBattery_resume (Fulfilled (JObject bm)) st) = Inr True
       \<and> bt_warnings (fst (initBattery_resume (Fulfilled (JObject bm)) st)) = bt_warnings st
       \<and> battery_listeners (fst (initBattery_resume (Fulfilled (JObject bm)) st)) =
           add_battery_listeners (battery_listeners st)
       \<and> batteryStatus (fst (initBattery_resume (Fulfilled (JObject bm)) st)) =
           newBatteryStatus lv ch ct dt"
proof -
  let ?st1 = "st\<lparr>batteryRef := JObject bm\<rparr>"
  have m: "mounted ?st1" and t: "truthy (JObject bm)" using assms(1) by simp_all
  have reads: "read_prop bat_level (JObject bm) = Inr lv"
    "read_prop bat_charging (JObject bm) = Inr ch"
    "read_prop bat_chargingTime (JObject bm) = Inr ct"
    "read_prop bat_dischargingTime (JObject bm) = Inr dt"
    using assms(3-6) by (simp_all add: read_prop_def)
  obtain st2 x where u: "updateBatteryStatus (JObject bm) ?st1 = (st2, x)"
    by (cases "updateBatteryStatus (JObject bm) ?st1")
  have x: "x = None"
    using updateBatteryStatus_quiet(4) [OF m t reads] u assms(7)
    by (simp add: callback_throws_def split: option.splits)
  have st2: "st2 = fst (updateBatteryStatus (JObject bm) ?st1)" using u by simp
  have status: "batteryStatus st2 = newBatteryStatus lv ch ct dt"
    unfolding st2 by (rule updateBatteryStatus_quiet(1) [OF m t reads])
  have keep: "bt_warnings st2 = bt_warnings st" "battery_listeners st2 = battery_listeners st"
    unfolding st2 by simp_all
  have "initBattery_resume (Fulfilled (JObject bm)) st =
      (st2\<lparr>battery_listeners := add_battery_listeners (battery_listeners st2)\<rparr>, Inr True)"
    using assms(1,2) u x
    by (simp add: initBattery_resume_def initBattery_try_def Let_def)
  with status keep show ?thesis by simp
qed


text \<open>
  C3. As stated the claim does not hold. An event target whose properties are missing or
  of the wrong type raises nothing: it is published with the per-field defaults and
  \<open>supported: true\<close>, and nothing is logged. And an access that throws in one of the four
  event handlers, which run outside the \<^verbatim>\<open>try\<close>, leaves the handler: the hook neither
  catches nor logs it, and the state stays as it was.
\<close>

theorem malformed_battery_not_degraded_counterexample:
  "batteryStatus (bt_run [BatSettle (Fulfilled (JObject battery_untyped))]
       (useBattery browser_env (Some cb7) [(''change'', Foreign 0)])) =
     \<lparr>level = JNumber (Finite 1), charging = JBool False,
      chargingTime = JNumber PosInfinity, dischargingTime = JNumber PosInfinity,
      supported = True\<rparr>
   \<and> bt_warnings (bt_run [BatSettle (Fulfilled (JObject battery_untyped))]
       (useBattery browser_env (Some cb7) [(''change'', Foreign 0)])) = []
   \<and> bt_uncaught (bt_run [BatSettle (Fulfilled (JObject battery_half)),
                           BatNotify ''levelchange'' battery_throwing]
       (useBattery browser_env (Some cb7) [(''change'', Foreign 0)])) = [PlatformError]
   \<and> bt_warnings (bt_run [BatSettle (Fulfilled (JObject battery_half)),
                           BatNotify ''levelchange'' battery_throwing]
       (useBattery browser_env (Some cb7) [(''change'', Foreign 0)])) = []
   \<and> batteryStatus (bt_run [BatSettle (Fulfilled (JObject battery_half)),
                             BatNotify ''levelchange'' battery_throwing]
       (useBattery browser_env (Some cb7) [(''change'', Foreign 0)])) =
     \<lparr>level = JNumber (Finite (1 / 2)), charging = JBool True,
      chargingTime = JNumber (Finite 1200), dischargingTime = JNumber PosInfinity,
      supported = True\<rparr>"
  by (simp add: useBattery_browser_env bt_eval battery_untyped_def battery_throwing_def)

text \<open>
  C3, amended. An exception raised while \<^verbatim>\<open>initBattery\<close> runs never leaves the hook, is
  logged, and leaves the published state at the unsupported default. These exceptions
  are: \<^verbatim>\<open>navigator.getBattery()\<close> throws at the call; the awaited promise rejects; the value
  fails the hook's validation (falsy, or not of type object); the initial publish throws
  (a property read or the \<^verbatim>\<open>onChange\<close> function); the value is no event target, so that
  registering the first listener throws. In each case \<^verbatim>\<open>console.warn\<close> is called once, the
  state afterwards is \<open>{level: 1, charging: false, chargingTime: Infinity,
  dischargingTime: Infinity, supported: false}\<close>, no listener stays registered, and the
  promise of \<^verbatim>\<open>initBattery\<close> is fulfilled with undefined; in no run at all is that promise
  rejected. An event target whose property reads and \<^verbatim>\<open>onChange\<close> function do not throw
  raises nothing, whatever the types of its properties: it is published with
  \<open>supported: true\<close>, each property of the wrong type replaced by its default, nothing is
  logged and the four listeners are registered.
\<close>

theorem initBattery_exception_degrades_to_unsupported:
  assumes "list_all is_foreign ls"
  shows "(hasWindow env0 \<and> getBattery_in_navigator env0 \<and> getBattery_call env0 = Some e0 \<longrightarrow>
            batteryStatus (useBattery env0 cb ls) =
              \<lparr>level = JNumber (Finite 1), charging = JBool False,
               chargingTime = JNumber PosInfinity, dischargingTime = JNumber PosInfinity,
               supported = False\<rparr>
          \<and> bt_warnings (useBattery env0 cb ls) = [''Error accessing battery status:'']
          \<and> battery_listeners (useBattery env0 cb ls) = ls
          \<and> cleanup_promise (useBattery env0 cb ls) = Settled (Inr False))
       \<and> (cleanup_promise (bt_run evs (useBattery env cb ls)) = Awaiting
          \<and> (s = Rejected e
               \<or> (\<exists>b. s = Fulfilled b
                     \<and> (\<not> truthy b \<or> typeof b \<noteq> ''object''
                         \<or> (mounted (bt_run evs (useBattery env cb ls))
                             \<and> (a_read_throws b
                                 \<or> callback_throws (bt_onChangeRef (bt_run evs (useBattery env cb ls)))
                                 \<or> \<not> is_event_target b))))) \<longrightarrow>
            batteryStatus (bt_step (BatSettle s) (bt_run evs (useBattery env cb ls))) =
              \<lparr>level = JNumber (Finite 1), charging = JBool False,
               chargingTime = JNumber PosInfinity, dischargingTime = JNumber PosInfinity,
               supported = False\<rparr>
          \<and> bt_warnings (bt_step (BatSettle s) (bt_run evs (useBattery env cb ls))) =
              bt_warnings (bt_run evs (useBattery env cb ls)) @ [''Error accessing battery status:'']
          \<and> battery_listeners (bt_step (BatSettle s) (bt_run evs (useBattery env cb ls))) = ls
          \<and> cleanup_promise (bt_step (BatSettle s) (bt_run evs (useBattery env cb ls))) =
              Settled (Inr False))
       \<and> (\<forall>e'. cleanup_promise (bt_run evs (useBattery env cb ls)) \<noteq> Settled (Inl e'))
       \<and> (cleanup_promise (bt_run evs (useBattery env cb ls)) = Awaiting
          \<and> mounted (bt_run evs (useBattery env cb ls))
          \<and> bat_isEventTarget bm
          \<and> bat_level bm = Inr lv \<and> bat_charging bm = Inr ch
          \<and> bat_chargingTime bm = Inr ct \<and> bat_dischargingTime bm = Inr dt
          \<and> \<not> callback_throws (bt_onChangeRef (bt_run evs (useBattery env cb ls))) \<longrightarrow>
            batteryStatus (bt_step (BatSettle (Fulfilled (JObject bm)))
                (bt_run evs (useBattery env cb ls))) =
              \<lparr>level = (if typeof lv = ''number'' then lv else JNumber (Finite 1)),
               charging = (if typeof ch = ''boolean'' then ch else JBool False),
               chargingTime = (if typeof ct = ''number'' then ct else JNumber PosInfinity),
               dischargingTime = (if typeof dt = ''number'' then dt else JNumber PosInfinity),
               supported = True\<rparr>
          \<and> bt_warnings (bt_step (BatSettle (Fulfilled (JObject bm)))
                (bt_run evs (useBattery env cb ls))) =
              bt_warnings (bt_run evs (useBattery env cb ls))
          \<and> battery_listeners (bt_step (BatSettle (Fulfilled (JObject bm)))
                (bt_run evs (useBattery env cb ls))) =
              ls @ [(''levelchange'', HandleLevelChange), (''chargingchange'', HandleChargingChange),
                    (''chargingtimechange'', HandleChargingTimeChange),
                    (''dischargingtimechange'', HandleDischargingTimeChange)]
          \<and> cleanup_promise (bt_step (BatSettle (Fulfilled (JObject bm)))
                (bt_run evs (useBattery env cb ls))) = Settled (Inr True))"
proof -
  let ?st = "bt_run evs (useBattery env cb ls)"
  have inv: "bt_inv ls ?st"
    by (rule bt_inv_run [OF assms bt_inv_mount])
  have A: "batteryStatus (useBattery env0 cb ls) =
              \<lparr>level = JNumber (Finite 1), charging = JBool False,
               chargingTime = JNumber PosInfinity, dischargingTime = JNumber PosInfinity,
               supported = False\<rparr>
          \<and> bt_warnings (useBattery env0 cb ls) = [''Error accessing battery status:'']
          \<and> battery_listeners (useBattery env0 cb ls) = ls
          \<and> cleanup_promise (useBattery env0 cb ls) = Settled (Inr False)"
    if "hasWindow env0 \<and> getBattery_in_navigator env0 \<and> getBattery_call env0 = Some e0"
    using that
    by (simp add: useBattery_def bt_effect_def initBattery_catch_def unsupportedBatteryStatus_def)
  have B: "batteryStatus (bt_step (BatSettle s) ?st) =
              \<lparr>level = JNumber (Finite 1), charging = JBool False,
               chargingTime = JNumber PosInfinity, dischargingTime = JNumber PosInfinity,
               supported = False\<rparr>
          \<and> bt_warnings (bt_step (BatSettle s) ?st) =
              bt_warnings ?st @ [''Error accessing battery status:'']
          \<and> battery_listeners (bt_step (BatSettle s) ?st) = ls
          \<and> cleanup_promise (bt_step (BatSettle s) ?st) = Settled (Inr False)"
    if a: "cleanup_promise ?st = Awaiting
          \<and> (s = Rejected e
               \<or> (\<exists>b. s = Fulfilled b
                     \<and> (\<not> truthy b \<or> typeof b \<noteq> ''object''
                         \<or> (mounted ?st
                             \<and> (a_read_throws b \<or> callback_throws (bt_onChangeRef ?st)
                                 \<or> \<not> is_event_target b)))))"
  proof -
    from a have aw: "cleanup_promise ?st = Awaiting" by simp
    from inv aw have quiet: "batteryStatus ?st = unsupportedBatteryStatus"
      "battery_listeners ?st = ls"
      by (simp_all add: bt_inv_def)
    from a have c: "s = Rejected e
         \<or> (\<exists>b. s = Fulfilled b
               \<and> (\<not> truthy b \<or> typeof b \<noteq> ''object''
                   \<or> (mounted ?st \<and> (a_read_throws b \<or> callback_throws (bt_onChangeRef ?st)
                                        \<or> \<not> is_event_target b))))" by simp
    obtain st' r where res: "initBattery_resume s ?st = (st', r)"
      by (cases "initBattery_resume s ?st")
    with initBattery_resume_throws [OF c] quiet have r: "r = Inr False" and st':
      "batteryStatus st' = unsupportedBatteryStatus"
      "bt_warnings st' = bt_warnings ?st @ [''Error accessing battery status:'']"
      "battery_listeners st' = ls"
      by simp_all
    have step: "bt_step (BatSettle s) ?st = run_microtasks (st'\<lparr>cleanup_promise := Settled r\<rparr>)"
      using aw res by (simp add: settle_def)
    show ?thesis
      unfolding step using st' r
      by (simp add: unsupportedBatteryStatus_def run_microtasks_def)
  qed
  have C: "\<forall>e'. cleanup_promise ?st \<noteq> Settled (Inl e')"
    using inv by (simp add: bt_inv_def)
  have D: "batteryStatus (bt_step (BatSettle (Fulfilled (JObject bm))) ?st) =
              \<lparr>level = (if typeof lv = ''number'' then lv else JNumber (Finite 1)),
               charging = (if typeof ch = ''boolean'' then ch else JBool False),
               chargingTime = (if typeof ct = ''number'' then ct else JNumber PosInfinity),
               dischargingTime = (if typeof dt = ''number'' then dt else JNumber PosInfinity),
               supported = True\<rparr>
          \<and> bt_warnings (bt_step (BatSettle (Fulfilled (JObject bm))) ?st) = bt_warnings ?st
          \<and> battery_listeners (bt_step (BatSettle (Fulfilled (JObject bm))) ?st) =
              ls @ [(''levelchange'', HandleLevelChange), (''chargingchange'', HandleChargingChange),
                    (''chargingtimechange'', HandleChargingTimeChange),
                    (''dischargingtimechange'', HandleDischargingTimeChange)]
          \<and> cleanup_promise (bt_step (BatSettle (Fulfilled (JObject bm))) ?st) = Settled (Inr True)"
    if d: "cleanup_promise ?st = Awaiting \<and> mounted ?st \<and> bat_isEventTarget bm
          \<and> bat_level bm = Inr lv \<and> bat_charging bm = Inr ch
          \<and> bat_chargingTime bm = Inr ct \<and> bat_dischargingTime bm = Inr dt
          \<and> \<not> callback_throws (bt_onChangeRef ?st)"
  proof -
    from d have aw: "cleanup_promise ?st = Awaiting" and m: "mounted ?st" by simp_all
    from inv aw m have quiet: "battery_listeners ?st = ls" "\<not> then_pending ?st"
      by (simp_all add: bt_inv_def)
    from d have "bat_isEventTarget bm" "bat_level bm = Inr lv" "bat_charging bm = Inr ch"
      "bat_chargingTime bm = Inr ct" "bat_dischargingTime bm = Inr dt"
      "\<not> callback_throws (bt_onChangeRef ?st)" by simp_all
    note reg = initBattery_resume_registers [OF m this]
    obtain st' r where res: "initBattery_resume (Fulfilled (JObject bm)) ?st = (st', r)"
      by (cases "initBattery_resume (Fulfilled (JObject bm)) ?st")
    with reg quiet have r: "r = Inr True" and st':
      "batteryStatus st' = newBatteryStatus lv ch ct dt"
      "bt_warnings st' = bt_warnings ?st"
      "battery_listeners st' = add_battery_listeners ls"
      by simp_all
    have tp: "then_pending st' = then_pending ?st"
      using res initBattery_resume_fields(2) [of "Fulfilled (JObject bm)" ?st] by simp
    have step: "bt_step (BatSettle (Fulfilled (JObject bm))) ?st =
        run_microtasks (st'\<lparr>cleanup_promise := Settled r\<rparr>)"
      using aw res by (simp add: settle_def)
    show ?thesis
      unfolding step using st' r tp quiet(2)
      by (simp add: newBatteryStatus_def add_battery_listeners_foreign [OF assms])
  qed
  from A B C D show ?thesis by blast
qed


theorem initBattery_exception_degrades_to_unsupported_witness:
  "list_all is_foreign [(''change'', Foreign 0)]
   \<and> (hasWindow broken_env \<and> getBattery_in_navigator broken_env
       \<and> getBattery_call broken_env = Some TypeError)
   \<and> batteryStatus (useBattery broken_env (Some cb7) [(''change'', Foreign 0)]) =
       \<lparr>level = JNumber (Finite 1), charging = JBool False,
        chargingTime = JNumber PosInfinity, dischargingTime = JNumber PosInfinity,
        supported = False\<rparr>
   \<and> (cleanup_promise (bt_run [] (useBattery browser_env (Some cb7) [(''change'', Foreign 0)])) = Awaiting
       \<and> mounted (bt_run [] (useBattery browser_env (Some cb7) [(''change'', Foreign 0)]))
       \<and> a_read_throws (JObject battery_throwing))
   \<and> batteryStatus (bt_step (BatSettle (Fulfilled (JObject battery_throwing)))
        (bt_run [] (useBattery browser_env (Some cb7) [(''change'', Foreign 0)]))) =
       \<lparr>level = JNumber (Finite 1), charging = JBool False,
        chargingTime = JNumber PosInfinity, dischargingTime = JNumber PosInfinity,
        supported = False\<rparr>
   \<and> bt_warnings (bt_step (BatSettle (Fulfilled (JObject battery_throwing)))
        (bt_run [] (useBattery browser_env (Some cb7) [(''change'', Foreign 0)]))) =
       [''Error accessing battery status:'']
   \<and> battery_listeners (bt_step (BatSettle (Fulfilled (JObject battery_throwing)))
        (bt_run [] (useBattery browser_env (Some cb7) [(''change'', Foreign 0)]))) =
       [(''change'', Foreign 0)]
   \<and> (bat_isEventTarget battery_untyped
       \<and> bat_level battery_untyped = Inr JUndefined
       \<and> bat_charging battery_untyped = Inr (JString ''yes'')
       \<and> bat_chargingTime battery_untyped = Inr JNull
       \<and> bat_dischargingTime battery_untyped = Inr JUndefined
       \<and> \<not> callback_throws (bt_onChangeRef
              (bt_run [] (useBattery browser_env (Some cb7) [(''change'', Foreign 0)]))))
   \<and> batteryStatus (bt_step (BatSettle (Fulfilled (JObject battery_untyped)))
        (bt_run [] (useBattery browser_env (Some cb7) [(''change'', Foreign 0)]))) =
       \<lparr>level = JNumber (Finite 1), charging = JBool False,
        chargingTime = JNumber PosInfinity, dischargingTime = JNumber PosInfinity,
        supported = True\<rparr>
   \<and> bt_warnings (bt_step (BatSettle (Fulfilled (JObject battery_untyped)))
        (bt_run [] (useBattery browser_env (Some cb7) [(''change'', Foreign 0)]))) = []"
proof -
  have h: "list_all is_foreign [(''change'', Foreign 0)]"
    by (simp add: is_foreign_def)
  have a: "hasWindow broken_env \<and> getBattery_in_navigator broken_env
       \<and> getBattery_call broken_env = Some TypeError"
    by (simp add: broken_env_def)
  have b: "cleanup_promise (bt_run [] (useBattery browser_env (Some cb7) [(''change'', Foreign 0)])) = Awaiting
       \<and> mounted (bt_run [] (useBattery browser_env (Some cb7) [(''change'', Foreign 0)]))
       \<and> a_read_throws (JObject battery_throwing)"
    by (simp add: useBattery_browser_env bt_run_def a_read_throws_def read_prop_def
        battery_throwing_def)
  have d: "bat_isEventTarget battery_untyped
       \<and> bat_level battery_untyped = Inr JUndefined
       \<and> bat_charging battery_untyped = Inr (JString ''yes'')
       \<and> bat_chargingTime battery_untyped = Inr JNull
       \<and> bat_dischargingTime battery_untyped = Inr JUndefined
       \<and> \<not> callback_throws (bt_onChangeRef
              (bt_run [] (useBattery browser_env (Some cb7) [(''change'', Foreign 0)])))"
    by (simp add: useBattery_browser_env bt_run_def battery_untyped_def callback_throws_def)
  show ?thesis
    using h a b d initBattery_exception_degrades_to_unsupported [OF h, where ?env0.0 = broken_env
        and ?e0.0 = TypeError and cb = "Some cb7" and env = browser_env and evs = "[]"
        and s = "Fulfilled (JObject battery_throwing)" and e = TypeError
        and bm = battery_untyped and lv = JUndefined and ch = "JString ''yes''"
        and ct = JNull and dt = JUndefined]
    by (simp add: useBattery_browser_env bt_run_def)
qed


lemma funpow_handleChange_ref [simp]:
  "onChangeRef ((handleChange conn ^^ n) st) = onChangeRef st"
  by (induction n) simp_all





lemma useNetworkSpeed_ref [simp]: "onChangeRef (useNetworkSpeed env cb ls) = cb"
  by (simp add: useNetworkSpeed_def ns_effect_def ns_warn_def split: sum.splits jsval.splits)

lemma useBattery_ref [simp]: "bt_onChangeRef (useBattery env cb ls) = cb"
  by (simp add: useBattery_def bt_effect_def initBattery_catch_def Let_def split: option.splits)












section \<open>Properties of the idle detector\<close>

lemma idle_fired_step:
  "idle_fired cfg st \<Longrightarrow> quiet cfg e \<Longrightarrow> idle_fired cfg (idle_step cfg e st)"
  by (cases e) (auto simp: idle_fired_def Let_def)

lemma idle_fired_run:
  "idle_fired cfg st \<Longrightarrow> list_all (quiet cfg) evs \<Longrightarrow> idle_fired cfg (idle_run cfg evs st)"
  unfolding idle_run_def
  by (induction evs arbitrary: st) (simp_all add: idle_fired_step)

lemma idle_waiting_run:
  "idle_waiting cfg st \<Longrightarrow> list_all (quiet cfg) evs \<Longrightarrow>
     timeoutMs cfg \<le> now st + elapsed evs \<Longrightarrow> idle_fired cfg (idle_run cfg evs st)"
proof (induction evs arbitrary: st)
  case Nil
  then show ?case by (simp add: idle_waiting_def)
next
  case (Cons e evs)
  have run: "idle_run cfg (e # evs) st = idle_run cfg evs (idle_step cfg e st)"
    by (simp add: idle_run_def)
  from Cons.prems(2) have q: "quiet cfg e" and qs: "list_all (quiet cfg) evs" by simp_all
  show ?case
  proof (cases e)
    case (Elapse d)
    show ?thesis
    proof (cases "timeoutMs cfg \<le> now st + d")
      case True
      with Cons.prems(1) Elapse have "idle_fired cfg (idle_step cfg e st)"
        by (simp add: idle_waiting_def idle_fired_def deadline_fires_def Let_def)
      from idle_fired_run [OF this qs] show ?thesis unfolding run .
    next
      case False
      with Cons.prems(1) Elapse have w: "idle_waiting cfg (idle_step cfg e st)"
        and n: "now (idle_step cfg e st) = now st + d"
        by (simp_all add: idle_waiting_def Let_def)
      from Cons.prems(3) Elapse n have "timeoutMs cfg \<le> now (idle_step cfg e st) + elapsed evs"
        by simp
      from Cons.IH [OF w qs this] show ?thesis unfolding run .
    qed
  next
    case (Dom name)
    with q Cons.prems(1) have "idle_step cfg e st = st"
      by (simp add: idle_waiting_def)
    with Cons.IH [OF Cons.prems(1) qs] Cons.prems(3) Dom show ?thesis
      unfolding run by simp
  next
    case Teardown
    with q show ?thesis by simp
  qed
qed

text \<open>
  C6. For every positive timeout: when, after activation in an interactive context, no
  tracked event fires while at least the timeout passes, the idle flag has become true
  exactly once and the idle callback has fired exactly once, however much longer the
  silence lasts. And a tracked event that reaches an idle detector makes it active,
  invokes the active callback exactly once, leaves the idle callback alone and restarts
  the deadline, so that no idle transition can follow before a full timeout has passed
  again.
\<close>

theorem idle_once_after_timeout_active_once_on_event:
  "(0 < timeoutMs cfg \<and> list_all (quiet cfg) evs \<and> timeoutMs cfg \<le> elapsed evs \<longrightarrow>
      isIdle (idle_run cfg evs (idle_activate True cfg))
    \<and> onIdle_calls (idle_run cfg evs (idle_activate True cfg)) = 1
    \<and> onActive_calls (idle_run cfg evs (idle_activate True cfg)) = 0
    \<and> flag_changes (idle_run cfg evs (idle_activate True cfg)) = [True])
   \<and> (isIdle st \<and> name \<in> set (idle_listeners st) \<longrightarrow>
      \<not> isIdle (idle_step cfg (Dom name) st)
    \<and> onActive_calls (idle_step cfg (Dom name) st) = onActive_calls st + 1
    \<and> onIdle_calls (idle_step cfg (Dom name) st) = onIdle_calls st
    \<and> flag_changes (idle_step cfg (Dom name) st) = flag_changes st @ [False]
    \<and> deadline (idle_step cfg (Dom name) st) = Some (now st + timeoutMs cfg)
    \<and> (\<forall>d. d < timeoutMs cfg \<longrightarrow>
          \<not> isIdle (idle_step cfg (Elapse d) (idle_step cfg (Dom name) st))))"
proof (intro conjI impI allI)
  assume a: "0 < timeoutMs cfg \<and> list_all (quiet cfg) evs \<and> timeoutMs cfg \<le> elapsed evs"
  then have "idle_waiting cfg (idle_activate True cfg)"
    by (simp add: idle_waiting_def idle_activate_def)
  from idle_waiting_run [OF this, of evs] a
  have f: "idle_fired cfg (idle_run cfg evs (idle_activate True cfg))"
    by (simp add: idle_activate_def)
  from f show "isIdle (idle_run cfg evs (idle_activate True cfg))"
    by (simp add: idle_fired_def)
  from f show "onIdle_calls (idle_run cfg evs (idle_activate True cfg)) = 1"
    by (simp add: idle_fired_def)
  from f show "onActive_calls (idle_run cfg evs (idle_activate True cfg)) = 0"
    by (simp add: idle_fired_def)
  from f show "flag_changes (idle_run cfg evs (idle_activate True cfg)) = [True]"
    by (simp add: idle_fired_def)
next
  assume b: "isIdle st \<and> name \<in> set (idle_listeners st)"
  then have step: "idle_step cfg (Dom name) st =
      st\<lparr>deadline := Some (now st + timeoutMs cfg), isIdle := False,
         onActive_calls := onActive_calls st + 1, flag_changes := flag_changes st @ [False]\<rparr>"
    by (simp add: tracked_event_def Let_def)
  show "\<not> isIdle (idle_step cfg (Dom name) st)"
    unfolding step by simp
  show "onActive_calls (idle_step cfg (Dom name) st) = onActive_calls st + 1"
    unfolding step by simp
  show "onIdle_calls (idle_step cfg (Dom name) st) = onIdle_calls st"
    unfolding step by simp
  show "flag_changes (idle_step cfg (Dom name) st) = flag_changes st @ [False]"
    unfolding step by simp
  show "deadline (idle_step cfg (Dom name) st) = Some (now st + timeoutMs cfg)"
    unfolding step by simp
  fix d
  assume "d < timeoutMs cfg"
  then show "\<not> isIdle (idle_step cfg (Elapse d) (idle_step cfg (Dom name) st))"
    unfolding step by (simp add: Let_def)
qed

lemma idle_example_run:
  "idle_run idle_5000 [Elapse 3000, Dom ''resize'', Elapse 3000] (idle_activate True idle_5000) =
     \<lparr>isIdle = True, now = 6000, deadline = None,
      idle_listeners = [''mousemove'', ''mousedown'', ''keydown'', ''touchstart'', ''scroll''],
      onIdle_calls = 1, onActive_calls = 0, flag_changes = [True]\<rparr>"
  by (simp add: idle_run_def idle_activate_def idle_5000_def deadline_fires_def Let_def)

theorem idle_once_after_timeout_active_once_on_event_witness:
  "0 < timeoutMs idle_5000
   \<and> list_all (quiet idle_5000) [Elapse 3000, Dom ''resize'', Elapse 3000]
   \<and> timeoutMs idle_5000 \<le> elapsed [Elapse 3000, Dom ''resize'', Elapse 3000]
   \<and> onIdle_calls (idle_run idle_5000 [Elapse 3000, Dom ''resize'', Elapse 3000]
        (idle_activate True idle_5000)) = 1
   \<and> isIdle (idle_run idle_5000 [Elapse 3000, Dom ''resize'', Elapse 3000]
        (idle_activate True idle_5000))
   \<and> ''keydown'' \<in> set (idle_listeners (idle_run idle_5000 [Elapse 3000, Dom ''resize'', Elapse 3000]
        (idle_activate True idle_5000)))
   \<and> flag_changes (idle_step idle_5000 (Dom ''keydown'')
        (idle_run idle_5000 [Elapse 3000, Dom ''resize'', Elapse 3000]
           (idle_activate True idle_5000))) = [True, False]
   \<and> onActive_calls (idle_step idle_5000 (Dom ''keydown'')
        (idle_run idle_5000 [Elapse 3000, Dom ''resize'', Elapse 3000]
           (idle_activate True idle_5000))) = 1"
proof -
  have a: "0 < timeoutMs idle_5000
       \<and> list_all (quiet idle_5000) [Elapse 3000, Dom ''resize'', Elapse 3000]
       \<and> timeoutMs idle_5000 \<le> elapsed [Elapse 3000, Dom ''resize'', Elapse 3000]"
    by (simp add: idle_5000_def)
  have b: "isIdle (idle_run idle_5000 [Elapse 3000, Dom ''resize'', Elapse 3000]
            (idle_activate True idle_5000))
       \<and> ''keydown'' \<in> set (idle_listeners (idle_run idle_5000
            [Elapse 3000, Dom ''resize'', Elapse 3000] (idle_activate True idle_5000)))"
    by (simp add: idle_example_run)
  show ?thesis
    using a b idle_once_after_timeout_active_once_on_event [of idle_5000
        "[Elapse 3000, Dom ''resize'', Elapse 3000]"
        "idle_run idle_5000 [Elapse 3000, Dom ''resize'', Elapse 3000] (idle_activate True idle_5000)"
        "''keydown''"]
    by (simp add: idle_example_run)
qed

section \<open>Properties of the geolocation accessor\<close>

lemma geo_disabled_step:
  "geo_disabled st \<Longrightarrow> keeps_disabled e \<Longrightarrow> geo_disabled (geo_step interactive e st)"
  by (cases e) (simp_all add: geo_disabled_def geo_release_def)

lemma geo_disabled_run:
  "geo_disabled st \<Longrightarrow> list_all keeps_disabled evs \<Longrightarrow>
     geo_disabled (geo_run interactive evs st)"
  unfolding geo_run_def
  by (induction evs arbitrary: st) (simp_all add: geo_disabled_step)

text \<open>
  C7. With \<open>enabled\<close> false at mount and in every later render, the accessor never calls
  the platform and its state is \<open>{loading: false, error: null, coordinates: null}\<close> after
  any run of renders, retries, stray platform callbacks and teardown, in an interactive
  context or not.
\<close>

theorem disabled_geolocation_issues_no_request:
  "\<not> enabled opts \<and> list_all keeps_disabled evs \<longrightarrow>
     geo (geo_run interactive evs (useGeolocation interactive opts)) =
       \<lparr>loading = False, error = None, coordinates = None\<rparr>
   \<and> platform_calls (geo_run interactive evs (useGeolocation interactive opts)) = []"
proof
  assume a: "\<not> enabled opts \<and> list_all keeps_disabled evs"
  then have "geo_disabled (useGeolocation interactive opts)"
    by (simp add: geo_disabled_def useGeolocation_def)
  from geo_disabled_run [OF this, of evs interactive] a
  show "geo (geo_run interactive evs (useGeolocation interactive opts)) =
       \<lparr>loading = False, error = None, coordinates = None\<rparr>
   \<and> platform_calls (geo_run interactive evs (useGeolocation interactive opts)) = []"
    by (simp add: geo_disabled_def disabledState_def)
qed

theorem disabled_geolocation_issues_no_request_witness:
  "enabled geo_off = False
   \<and> list_all keeps_disabled [Retry, SetOptions geo_off_watch, PositionSuccess somewhere]
   \<and> geo (geo_run True [Retry, SetOptions geo_off_watch, PositionSuccess somewhere]
        (useGeolocation True geo_off)) = \<lparr>loading = False, error = None, coordinates = None\<rparr>
   \<and> platform_calls (geo_run True [Retry, SetOptions geo_off_watch, PositionSuccess somewhere]
        (useGeolocation True geo_off)) = []"
proof -
  have a: "\<not> enabled geo_off
      \<and> list_all keeps_disabled [Retry, SetOptions geo_off_watch, PositionSuccess somewhere]"
    by (simp add: geo_off_def geo_off_watch_def)
  show ?thesis
    using a disabled_geolocation_issues_no_request [of geo_off
        "[Retry, SetOptions geo_off_watch, PositionSuccess somewhere]" True]
    by simp
qed

end
